theory Spec2Isabelle
  imports Main "HOL-Library.AList" "HOL-Library.Multiset"
begin

section \<open>Data model\<close>

text \<open>
  The Kubernetes types the CRD manager works on. The spec of a CRD has every field of
  \<open>CustomResourceDefinitionSpec\<close>. The manager never looks into two of them, the names
  (\<open>Names\<close>) and the versions with their schemas (\<open>Versions\<close>); each is held as the
  tree of Go values it dereferences to (\<open>GoValue\<close>), on which \<open>reflect.DeepEqual\<close> is
  equality: fields in the order of the struct, and a nil slice, map or pointer
  (\<open>GoNil\<close>) different from an empty slice (\<open>GoSlice []\<close>). Of the metadata, the
  fields the manager reads or writes are kept.

  Go pointers matter here: a \<open>CustomResourceDefinition\<close> is passed by value, but
  \<open>Spec.Conversion\<close>, \<open>Conversion.Webhook\<close>, \<open>Webhook.ClientConfig\<close> and
  \<open>ClientConfig.Service\<close> are pointers, so a callee that receives a copy of the struct
  still reaches, and can write to, the caller's conversion data. Every struct that holds
  one of these pointers is therefore polymorphic in what stands at the pointer: an address
  (\<open>addr\<close>) in the program's view, the pointed-to value in the dereferenced view that
  \<open>reflect.DeepEqual\<close> compares.

  A Go \<open>map[string]string\<close> is an association list (\<open>map_of\<close> reads it,
  \<open>AList.update\<close> writes it); \<open>None\<close> is the nil map, the nil pointer, the nil slice.
\<close>

type_synonym addr = nat

datatype GoValue =
    GoNil
  | GoBool bool
  | GoInt int
  | GoString string
  | GoSlice "GoValue list"
  | GoStruct "(string \<times> GoValue) list"

type_synonym gomap = "(string \<times> string) list"

record ServiceReference =
  Namespace :: string
  ServiceName :: string
  Path :: "string option"
  Port :: "int option"

record 'svc WebhookClientConfig =
  URL :: "string option"
  Service :: "'svc option"
  CABundle :: "nat list option"

record 'cfg WebhookConversion =
  ClientConfig :: "'cfg option"
  ConversionReviewVersions :: "string list option"

record 'hook CustomResourceConversion =
  Strategy :: string
  Webhook :: "'hook option"

record 'conv CustomResourceDefinitionSpec =
  Group :: string
  Names :: GoValue
  Scope :: string
  Versions :: GoValue
  Conversion :: "'conv option"
  PreserveUnknownFields :: bool

record 'conv CustomResourceDefinition =
  Name :: string
  Labels :: "gomap option"
  Annotations :: "gomap option"
  ResourceVersion :: string
  Spec :: "'conv CustomResourceDefinitionSpec"

text \<open>The structs as the program holds them: pointers are addresses.\<close>

type_synonym CRD = "addr CustomResourceDefinition"

text \<open>The dereferenced structs: every pointer replaced by what it points to.\<close>

type_synonym ClientConfigV = "ServiceReference WebhookClientConfig"
type_synonym WebhookV = "ClientConfigV WebhookConversion"
type_synonym ConversionV = "WebhookV CustomResourceConversion"
type_synonym CRDV = "ConversionV CustomResourceDefinition"

text \<open>
  The store: one table per pointer type, and the next unused address. Allocation takes
  \<open>nextAddr\<close> and increments it, so the cells in use are those below \<open>nextAddr\<close>.
\<close>

record heap =
  conversions :: "addr \<Rightarrow> addr CustomResourceConversion"
  webhooks :: "addr \<Rightarrow> addr WebhookConversion"
  clientConfigs :: "addr \<Rightarrow> addr WebhookClientConfig"
  services :: "addr \<Rightarrow> ServiceReference"
  nextAddr :: addr

text \<open>The constants of manager.go.\<close>

definition ServiceOperatorVersionLabel :: string where
  "ServiceOperatorVersionLabel = ''app.kubernetes.io/version''"

definition certMgrInjectCAFromAnnotation :: string where
  "certMgrInjectCAFromAnnotation = ''cert-manager.io/inject-ca-from''"

text \<open>The zero value of the struct: what a Go map lookup returns for a missing key.\<close>

definition zeroNames :: GoValue where
  "zeroNames = GoStruct [(''Plural'', GoString ''''), (''Singular'', GoString ''''),
     (''ShortNames'', GoNil), (''Kind'', GoString ''''), (''ListKind'', GoString ''''),
     (''Categories'', GoNil)]"

definition zeroCRD :: "'conv CustomResourceDefinition" where
  "zeroCRD = \<lparr>Name = '''', Labels = None, Annotations = None, ResourceVersion = '''',
     Spec = \<lparr>Group = '''', Names = zeroNames, Scope = '''', Versions = GoNil,
       Conversion = None, PreserveUnknownFields = False\<rparr>\<rparr>"

text \<open>
  \<open>v, ok := m[k]\<close> on a \<open>map[string]string\<close>: the zero value and \<open>false\<close> for a
  missing key, also when the map is nil.
\<close>

definition index :: "gomap option \<Rightarrow> string \<Rightarrow> string \<times> bool" where
  "index m k =
     (case m of
        None \<Rightarrow> ('''', False)
      | Some kvs \<Rightarrow> (case map_of kvs k of None \<Rightarrow> ('''', False) | Some v \<Rightarrow> (v, True)))"

section \<open>Comparators\<close>

text \<open>
  \<open>VersionEqual\<close> reads the two label maps only; it writes nothing.
\<close>

definition VersionEqual :: "'conv CustomResourceDefinition \<Rightarrow> 'conv CustomResourceDefinition \<Rightarrow> bool" where
  "VersionEqual a b =
     (if Labels a = None \<and> Labels b = None then True
      else if Labels a = None \<or> Labels b = None then False
      else
        (let (aVersion, aOk) = index (Labels a) ServiceOperatorVersionLabel;
             (bVersion, bOk) = index (Labels b) ServiceOperatorVersionLabel
         in if \<not> aOk \<and> \<not> bOk then True else aVersion = bVersion))"

text \<open>A CRD carries the version label when its label map has the key.\<close>

definition carriesVersion :: "'conv CustomResourceDefinition \<Rightarrow> bool" where
  "carriesVersion a = snd (index (Labels a) ServiceOperatorVersionLabel)"

definition versionOf :: "'conv CustomResourceDefinition \<Rightarrow> string" where
  "versionOf a = fst (index (Labels a) ServiceOperatorVersionLabel)"


text \<open>
  A comparator is a Go function \<open>func(a, b CustomResourceDefinition) bool\<close>. It receives
  copies of the two structs, which still point into the store, so it is a function of
  the store and returns the store it leaves behind.
\<close>

type_synonym comparator = "heap \<Rightarrow> CRD \<Rightarrow> CRD \<Rightarrow> bool \<times> heap"

subsection \<open>Dereferencing\<close>

definition viewClientConfig :: "heap \<Rightarrow> addr WebhookClientConfig \<Rightarrow> ClientConfigV" where
  "viewClientConfig h c =
     \<lparr>URL = URL c, Service = map_option (services h) (Service c), CABundle = CABundle c\<rparr>"

definition viewWebhook :: "heap \<Rightarrow> addr WebhookConversion \<Rightarrow> WebhookV" where
  "viewWebhook h w =
     \<lparr>ClientConfig = map_option (\<lambda>p. viewClientConfig h (clientConfigs h p)) (ClientConfig w),
      ConversionReviewVersions = ConversionReviewVersions w\<rparr>"

definition viewConversion :: "heap \<Rightarrow> addr CustomResourceConversion \<Rightarrow> ConversionV" where
  "viewConversion h c =
     \<lparr>Strategy = Strategy c,
      Webhook = map_option (\<lambda>p. viewWebhook h (webhooks h p)) (Webhook c)\<rparr>"

definition viewSpec :: "heap \<Rightarrow> addr CustomResourceDefinitionSpec \<Rightarrow> ConversionV CustomResourceDefinitionSpec" where
  "viewSpec h s =
     \<lparr>Group = Group s, Names = Names s, Scope = Scope s, Versions = Versions s,
      Conversion = map_option (\<lambda>p. viewConversion h (conversions h p)) (Conversion s),
      PreserveUnknownFields = PreserveUnknownFields s\<rparr>"

definition view :: "heap \<Rightarrow> CRD \<Rightarrow> CRDV" where
  "view h a =
     \<lparr>Name = Name a, Labels = Labels a, Annotations = Annotations a,
      ResourceVersion = ResourceVersion a, Spec = viewSpec h (Spec a)\<rparr>"

text \<open>The cells a CRD reaches: the pointer chain below \<open>Spec.Conversion\<close>.\<close>

definition convOf :: "CRD \<Rightarrow> addr option" where
  "convOf a = Conversion (Spec a)"

definition hookOf :: "heap \<Rightarrow> CRD \<Rightarrow> addr option" where
  "hookOf h a = (case convOf a of None \<Rightarrow> None | Some p \<Rightarrow> Webhook (conversions h p))"

definition cfgOf :: "heap \<Rightarrow> CRD \<Rightarrow> addr option" where
  "cfgOf h a = (case hookOf h a of None \<Rightarrow> None | Some p \<Rightarrow> ClientConfig (webhooks h p))"

definition svcOf :: "heap \<Rightarrow> CRD \<Rightarrow> addr option" where
  "svcOf h a = (case cfgOf h a of None \<Rightarrow> None | Some p \<Rightarrow> Service (clientConfigs h p))"

definition cells :: "heap \<Rightarrow> CRD \<Rightarrow> addr set" where
  "cells h a = set_option (convOf a) \<union> set_option (hookOf h a) \<union>
     set_option (cfgOf h a) \<union> set_option (svcOf h a)"

text \<open>
  \<open>within N h a\<close>: every cell of \<open>a\<close> is allocated and lies at or above \<open>N\<close>.
  \<open>valid h a\<close>: every cell of \<open>a\<close> is allocated, as in any Go program.
\<close>

definition within :: "addr \<Rightarrow> heap \<Rightarrow> CRD \<Rightarrow> bool" where
  "within N h a = (\<forall>p \<in> cells h a. N \<le> p \<and> p < nextAddr h)"

definition valid :: "heap \<Rightarrow> CRD \<Rightarrow> bool" where
  "valid h a = (\<forall>p \<in> cells h a. p < nextAddr h)"

definition agree_below :: "addr \<Rightarrow> heap \<Rightarrow> heap \<Rightarrow> bool" where
  "agree_below N h h' =
     (\<forall>p. p < N \<longrightarrow>
        conversions h' p = conversions h p \<and> webhooks h' p = webhooks h p \<and>
        clientConfigs h' p = clientConfigs h p \<and> services h' p = services h p)"

subsection \<open>DeepCopy\<close>

text \<open>
  The generated \<open>DeepCopy\<close> of the Kubernetes types: for every non-nil pointer it
  allocates a new cell (\<open>new(T)\<close>) and copies the pointed-to struct into it, pointer
  fields in turn. Maps and slices are values in this model and are copied with the struct.
\<close>

definition deepCopyService :: "heap \<Rightarrow> addr option \<Rightarrow> addr option \<times> heap" where
  "deepCopyService h p =
     (case p of
        None \<Rightarrow> (None, h)
      | Some a \<Rightarrow>
          (let q = nextAddr h
           in (Some q, h\<lparr>services := (services h)(q := services h a), nextAddr := Suc q\<rparr>)))"

definition deepCopyClientConfig :: "heap \<Rightarrow> addr option \<Rightarrow> addr option \<times> heap" where
  "deepCopyClientConfig h p =
     (case p of
        None \<Rightarrow> (None, h)
      | Some a \<Rightarrow>
          (let q = nextAddr h;
               c = clientConfigs h a;
               (s, h1) = deepCopyService (h\<lparr>nextAddr := Suc q\<rparr>) (Service c)
           in (Some q, h1\<lparr>clientConfigs := (clientConfigs h1)(q := c\<lparr>Service := s\<rparr>)\<rparr>)))"

definition deepCopyWebhook :: "heap \<Rightarrow> addr option \<Rightarrow> addr option \<times> heap" where
  "deepCopyWebhook h p =
     (case p of
        None \<Rightarrow> (None, h)
      | Some a \<Rightarrow>
          (let q = nextAddr h;
               w = webhooks h a;
               (c, h1) = deepCopyClientConfig (h\<lparr>nextAddr := Suc q\<rparr>) (ClientConfig w)
           in (Some q, h1\<lparr>webhooks := (webhooks h1)(q := w\<lparr>ClientConfig := c\<rparr>)\<rparr>)))"

definition deepCopyConversion :: "heap \<Rightarrow> addr option \<Rightarrow> addr option \<times> heap" where
  "deepCopyConversion h p =
     (case p of
        None \<Rightarrow> (None, h)
      | Some a \<Rightarrow>
          (let q = nextAddr h;
               c = conversions h a;
               (w, h1) = deepCopyWebhook (h\<lparr>nextAddr := Suc q\<rparr>) (Webhook c)
           in (Some q, h1\<lparr>conversions := (conversions h1)(q := c\<lparr>Webhook := w\<rparr>)\<rparr>)))"

definition DeepCopy :: "heap \<Rightarrow> CRD \<Rightarrow> CRD \<times> heap" where
  "DeepCopy h a =
     (let (c, h1) = deepCopyConversion h (Conversion (Spec a))
      in (a\<lparr>Spec := (Spec a)\<lparr>Conversion := c\<rparr>\<rparr>, h1))"

subsection \<open>SpecEqual and its variants\<close>

text \<open>
  \<open>ignoreCABundle\<close> and \<open>ignoreConversionWebhook\<close> assign through the pointers of
  their argument: the struct they return is the one they were given, the store is not.
\<close>

definition ignoreCABundle :: "heap \<Rightarrow> CRD \<Rightarrow> CRD \<times> heap" where
  "ignoreCABundle h a =
     (case Conversion (Spec a) of
        None \<Rightarrow> (a, h)
      | Some pc \<Rightarrow>
          (case Webhook (conversions h pc) of
             None \<Rightarrow> (a, h)
           | Some pw \<Rightarrow>
               (case ClientConfig (webhooks h pw) of
                  None \<Rightarrow> (a, h)
                | Some pcc \<Rightarrow>
                    (a, h\<lparr>clientConfigs :=
                          (clientConfigs h)(pcc := (clientConfigs h pcc)\<lparr>CABundle := None\<rparr>)\<rparr>))))"

definition ignoreConversionWebhook :: "heap \<Rightarrow> CRD \<Rightarrow> CRD \<times> heap" where
  "ignoreConversionWebhook h a =
     (case Conversion (Spec a) of
        None \<Rightarrow> (a, h)
      | Some pc \<Rightarrow>
          (case Webhook (conversions h pc) of
             None \<Rightarrow> (a, h)
           | Some pw \<Rightarrow>
               (a, h\<lparr>conversions := (conversions h)(pc := (conversions h pc)\<lparr>Webhook := None\<rparr>)\<rparr>)))"

text \<open>\<open>reflect.DeepEqual\<close> follows pointers: it compares the dereferenced specs.\<close>

definition SpecEqual :: comparator where
  "SpecEqual h a b =
     (let (a, h) = ignoreCABundle h a;
          (b, h) = ignoreCABundle h b
      in (viewSpec h (Spec a) = viewSpec h (Spec b), h))"

definition SpecEqualIgnoreConversionWebhook :: comparator where
  "SpecEqualIgnoreConversionWebhook h a b =
     (let (a, h) = ignoreConversionWebhook h a;
          (b, h) = ignoreConversionWebhook h b
      in (viewSpec h (Spec a) = viewSpec h (Spec b), h))"

text \<open>
  A comparator that only reads its arguments is a predicate on what they dereference to;
  \<open>VersionEqual\<close> is one.
\<close>

definition readOnly :: "(CRDV \<Rightarrow> CRDV \<Rightarrow> bool) \<Rightarrow> comparator" where
  "readOnly f h a b = (f (view h a) (view h b), h)"

section \<open>FindMatchingCRDs and FindNonMatchingCRDs\<close>

text \<open>\<open>existingCRDs\<close>: the lookup map of the existing CRDs by name; a later entry of the same name replaces an earlier one.\<close>

definition existingCRDs :: "CRD list \<Rightarrow> (string \<times> CRD) list" where
  "existingCRDs existing = fold (\<lambda>crd m. AList.update (Name crd) crd m) existing []"

text \<open>The inner loop over the comparators, with its \<open>break\<close>.\<close>

fun runComparators :: "comparator list \<Rightarrow> heap \<Rightarrow> CRD \<Rightarrow> CRD \<Rightarrow> bool \<times> heap" where
  "runComparators [] h existingCRD goalCRD = (True, h)"
| "runComparators (c # cs) h existingCRD goalCRD =
     (case c h existingCRD goalCRD of
        (r, h') \<Rightarrow> if \<not> r then (False, h') else runComparators cs h' existingCRD goalCRD)"

text \<open>The loop over the goal CRDs.\<close>

fun matchGoals ::
  "comparator list \<Rightarrow> (string \<times> CRD) list \<Rightarrow> CRD list \<Rightarrow> heap \<Rightarrow> (string \<times> CRD) list \<Rightarrow>
   (string \<times> CRD) list \<times> heap" where
  "matchGoals comparators existingByName [] h matching = (matching, h)"
| "matchGoals comparators existingByName (goalCRD # rest) h matching =
     (let existingCRD = (case map_of existingByName (Name goalCRD) of None \<Rightarrow> zeroCRD | Some e \<Rightarrow> e);
          (existingCRD, h) = DeepCopy h existingCRD;
          (goalCRD, h) = DeepCopy h goalCRD;
          (equal, h) = runComparators comparators h existingCRD goalCRD
      in matchGoals comparators existingByName rest h
           (if equal then AList.update (Name goalCRD) goalCRD matching else matching))"

definition FindMatchingCRDs ::
  "heap \<Rightarrow> CRD list \<Rightarrow> CRD list \<Rightarrow> comparator list \<Rightarrow> (string \<times> CRD) list \<times> heap" where
  "FindMatchingCRDs h existing goal comparators =
     matchGoals comparators (existingCRDs existing) goal h []"

definition invert :: "comparator \<Rightarrow> comparator" where
  "invert c = (\<lambda>h a b. case c h a b of (r, h') \<Rightarrow> (\<not> r, h'))"

definition FindNonMatchingCRDs ::
  "heap \<Rightarrow> CRD list \<Rightarrow> CRD list \<Rightarrow> comparator list \<Rightarrow> (string \<times> CRD) list \<times> heap" where
  "FindNonMatchingCRDs h existing goal comparators =
     FindMatchingCRDs h existing goal (map invert comparators)"

text \<open>What \<open>FindMatchingCRDs\<close> compares a goal CRD with: the existing CRD of its name, or the zero CRD.\<close>

definition existingFor :: "CRD list \<Rightarrow> CRD \<Rightarrow> CRD" where
  "existingFor existing goalCRD =
     (case map_of (existingCRDs existing) (Name goalCRD) of None \<Rightarrow> zeroCRD | Some e \<Rightarrow> e)"

text \<open>
  A comparator is confined when it writes only to cells its arguments reach: if both
  arguments live at or above \<open>N\<close>, it leaves the cells below \<open>N\<close> as they are, and its
  arguments still live at or above \<open>N\<close> afterwards.
\<close>

definition confined :: "comparator \<Rightarrow> bool" where
  "confined c =
     (\<forall>h a b N. N \<le> nextAddr h \<and> within N h a \<and> within N h b \<longrightarrow>
        (let h' = snd (c h a b)
         in nextAddr h \<le> nextAddr h' \<and> agree_below N h h' \<and> within N h' a \<and> within N h' b))"

section \<open>The installation planner\<close>

text \<open>
  Modelled from the spec: the instruction type, declared in a file of the package that is
  not among the sources. \<open>FilterResult \<in> {Excluded, MatchedExisting, MatchedPattern}\<close>,
  \<open>DiffResult \<in> {NoDifference, VersionDifferent, SpecDifferent}\<close>, and an instruction
  is \<open>{Definition, FilterResult, FilterReason, DiffResult}\<close>; the constructor names are
  those manager.go uses. The filter reason is a formatted message, kept here as its
  format and arguments.
\<close>

datatype FilterResult = Excluded | MatchedExistingCRD | MatchedPattern

datatype DiffResult = NoDifference | SpecDifferent | VersionDifferent

datatype FilterReason =
    NotMatchedNotExisting string
  | AlreadyInstalled string
  | MatchedByPattern string string

record CRDInstallationInstruction =
  CRD :: CRD
  FilterResult :: FilterResult
  FilterReason :: FilterReason
  DiffResult :: DiffResult

text \<open>
  Modelled from the spec: \<open>ShouldApply\<close>, declared with the instruction type. An
  instruction is applied iff \<open>FilterResult \<noteq> Excluded\<close> and \<open>DiffResult \<noteq> NoDifference\<close>.
\<close>

definition ShouldApply :: "CRDInstallationInstruction \<Rightarrow> bool" where
  "ShouldApply item = (FilterResult item \<noteq> Excluded \<and> DiffResult item \<noteq> NoDifference)"

text \<open>The errors of the planner and of the apply engine.\<close>

datatype error =
    PatternValidationError "string list"
  | GoalNotFound string
  | ListFailed
  | DetermineFailed error
  | ApplyFailed string

text \<open>
  What the planner takes from outside manager.go. \<open>makeMatchString\<close> derives the string
  a pattern is matched against from a CRD; \<open>splitPatterns\<close> parses a pattern specification
  into its individual patterns; \<open>patternMatches p s\<close> is the wildcard match of one pattern.
  \<open>rangeOrder\<close> is the order in which the Go runtime enumerates the keys of a map in a
  \<open>range\<close> loop: Go leaves it unspecified, so every loop over a map takes its order from
  here, by the number of the loop.
\<close>

record Env =
  makeMatchString :: "CRD \<Rightarrow> string"
  splitPatterns :: "string \<Rightarrow> string list"
  patternMatches :: "string \<Rightarrow> string \<Rightarrow> bool"
  rangeOrder :: "nat \<Rightarrow> string list \<Rightarrow> string list"

text \<open>The runtime enumerates every key of a map once.\<close>

definition enumerates :: "Env \<Rightarrow> bool" where
  "enumerates env = (\<forall>i ks. mset (rangeOrder env i ks) = mset ks)"

definition rangeOver :: "Env \<Rightarrow> nat \<Rightarrow> (string \<times> 'v) list \<Rightarrow> (string \<times> 'v) list" where
  "rangeOver env i m =
     List.map_filter (\<lambda>k. map_option (Pair k) (map_of m k)) (rangeOrder env i (map fst m))"

text \<open>
  Modelled from the spec: the string matcher of the package \<open>match\<close>, which is not among
  the sources. It evaluates a pattern specification against candidate names, flags the
  patterns that matched, and \<open>WasMatched\<close> fails afterwards if any individual pattern
  matched nothing, naming every such pattern.
\<close>

record StringMatcher =
  clauses :: "string list"
  used :: "string list"

record MatchResult =
  Matched :: bool
  MatchingPattern :: string

definition NewStringMatcher :: "Env \<Rightarrow> string \<Rightarrow> StringMatcher" where
  "NewStringMatcher env patterns = \<lparr>clauses = splitPatterns env patterns, used = []\<rparr>"

definition Matches :: "Env \<Rightarrow> StringMatcher \<Rightarrow> string \<Rightarrow> MatchResult \<times> StringMatcher" where
  "Matches env m s =
     (let hits = filter (\<lambda>p. patternMatches env p s) (clauses m)
      in (\<lparr>Matched = (hits \<noteq> []), MatchingPattern = (case hits of [] \<Rightarrow> '''' | p # _ \<Rightarrow> p)\<rparr>,
          m\<lparr>used := used m @ hits\<rparr>))"

definition WasMatched :: "StringMatcher \<Rightarrow> error option" where
  "WasMatched m =
     (case filter (\<lambda>p. p \<notin> set (used m)) (clauses m) of
        [] \<Rightarrow> None
      | p # ps \<Rightarrow> Some (PatternValidationError (p # ps)))"

text \<open>The first loop of \<open>DetermineCRDsToInstallOrUpgrade\<close>: one instruction per goal CRD, keyed by name.\<close>

definition seedInstructions :: "Env \<Rightarrow> CRD list \<Rightarrow> (string \<times> CRDInstallationInstruction) list" where
  "seedInstructions env goalCRDs =
     fold (\<lambda>crd resultMap.
            AList.update (Name crd)
              \<lparr>CRD = crd, FilterResult = Excluded,
               FilterReason = NotMatchedNotExisting (makeMatchString env crd),
               DiffResult = NoDifference\<rparr> resultMap)
       goalCRDs []"

definition filterCRDsByExisting ::
  "Env \<Rightarrow> CRD list \<Rightarrow> (string \<times> CRDInstallationInstruction) list \<Rightarrow>
   (string \<times> CRDInstallationInstruction) list" where
  "filterCRDsByExisting env existing resultMap =
     fold (\<lambda>crd resultMap.
            case map_of resultMap (Name crd) of
              None \<Rightarrow> resultMap
            | Some result \<Rightarrow>
                AList.update (Name crd)
                  (result\<lparr>FilterResult := MatchedExistingCRD,
                          FilterReason := AlreadyInstalled (makeMatchString env crd)\<rparr>) resultMap)
       existing resultMap"

text \<open>The body of the loop of \<open>filterCRDsByPatterns\<close>, for the entry \<open>(name, goal)\<close> of the map.\<close>

definition patternStep ::
  "Env \<Rightarrow> string \<times> CRDInstallationInstruction \<Rightarrow>
   (string \<times> CRDInstallationInstruction) list \<times> StringMatcher \<Rightarrow>
   (string \<times> CRDInstallationInstruction) list \<times> StringMatcher" where
  "patternStep env entry state =
     (case (entry, state) of
        ((name, goal), (resultMap, matcher)) \<Rightarrow>
          (let matchString = makeMatchString env (CRD goal);
               (matchResult, matcher) = Matches env matcher matchString
           in if Matched matchResult
              then (AList.update name
                      (goal\<lparr>FilterResult := MatchedPattern,
                            FilterReason := MatchedByPattern (makeMatchString env (CRD goal))
                              (MatchingPattern matchResult)\<rparr>) resultMap, matcher)
              else (resultMap, matcher)))"

definition filterCRDsByPatterns ::
  "Env \<Rightarrow> string \<Rightarrow> (string \<times> CRDInstallationInstruction) list \<Rightarrow>
   error + (string \<times> CRDInstallationInstruction) list" where
  "filterCRDsByPatterns env patterns resultMap =
     (if patterns = '''' then Inr resultMap
      else
        (let matcher = NewStringMatcher env patterns;
             (resultMap, matcher) = fold (patternStep env) (rangeOver env 0 resultMap) (resultMap, matcher)
         in case WasMatched matcher of
              Some err \<Rightarrow> Inl err
            | None \<Rightarrow> Inr resultMap))"

text \<open>The loop that collects the CRDs of the instructions that are not excluded.\<close>

definition filteredGoalCRDs :: "Env \<Rightarrow> (string \<times> CRDInstallationInstruction) list \<Rightarrow> CRD list" where
  "filteredGoalCRDs env resultMap =
     map (\<lambda>entry. CRD (snd entry))
       (filter (\<lambda>entry. FilterResult (snd entry) \<noteq> Excluded) (rangeOver env 1 resultMap))"

text \<open>
  The two loops that record a difference, over the names of a mismatch set: each fails
  if a name has no instruction.
\<close>

fun markDifferent ::
  "DiffResult \<Rightarrow> string list \<Rightarrow> (string \<times> CRDInstallationInstruction) list \<Rightarrow>
   error + (string \<times> CRDInstallationInstruction) list" where
  "markDifferent d [] resultMap = Inr resultMap"
| "markDifferent d (name # names) resultMap =
     (case map_of resultMap name of
        None \<Rightarrow> Inl (GoalNotFound name)
      | Some result \<Rightarrow> markDifferent d names (AList.update name (result\<lparr>DiffResult := d\<rparr>) resultMap))"

text \<open>The two mismatch sets, in the order the source computes them, and the store they leave.\<close>

definition mismatchSets ::
  "Env \<Rightarrow> heap \<Rightarrow> CRD list \<Rightarrow> (string \<times> CRDInstallationInstruction) list \<Rightarrow>
   (string \<times> CRD) list \<times> (string \<times> CRD) list \<times> heap" where
  "mismatchSets env h existing resultMap =
     (let filtered = filteredGoalCRDs env resultMap;
          (goalCRDsWithDifferentVersion, h) = FindNonMatchingCRDs h existing filtered [readOnly VersionEqual];
          (goalCRDsWithDifferentSpec, h) = FindNonMatchingCRDs h existing filtered [SpecEqual]
      in (goalCRDsWithDifferentVersion, goalCRDsWithDifferentSpec, h))"

text \<open>The instruction map after the two filter passes, or the pattern validation error.\<close>

definition filterPasses ::
  "Env \<Rightarrow> CRD list \<Rightarrow> CRD list \<Rightarrow> string \<Rightarrow> error + (string \<times> CRDInstallationInstruction) list" where
  "filterPasses env goalCRDs existing patterns =
     filterCRDsByPatterns env patterns
       (filterCRDsByExisting env existing (seedInstructions env goalCRDs))"

definition DetermineCRDsToInstallOrUpgrade ::
  "Env \<Rightarrow> heap \<Rightarrow> CRD list \<Rightarrow> CRD list \<Rightarrow> string \<Rightarrow>
   (error + CRDInstallationInstruction list) \<times> heap" where
  "DetermineCRDsToInstallOrUpgrade env h goalCRDs existing patterns =
     (case filterPasses env goalCRDs existing patterns of
        Inl err \<Rightarrow> (Inl err, h)
      | Inr resultMap \<Rightarrow>
          (case mismatchSets env h existing resultMap of
             (goalCRDsWithDifferentVersion, goalCRDsWithDifferentSpec, h) \<Rightarrow>
               (case markDifferent SpecDifferent
                       (map fst (rangeOver env 2 goalCRDsWithDifferentSpec)) resultMap of
                  Inl err \<Rightarrow> (Inl err, h)
                | Inr resultMap \<Rightarrow>
                    (case markDifferent VersionDifferent
                            (map fst (rangeOver env 3 goalCRDsWithDifferentVersion)) resultMap of
                       Inl err \<Rightarrow> (Inl err, h)
                     | Inr resultMap \<Rightarrow> (Inr (map snd (rangeOver env 4 resultMap)), h)))))"

section \<open>Fixing namespace references\<close>

text \<open>
  \<open>strings.Split(s, sep)\<close> for a separator of one byte: the pieces of \<open>s\<close> between
  the occurrences of the separator, one more than there are occurrences.
\<close>

fun Split :: "string \<Rightarrow> char \<Rightarrow> string list" where
  "Split [] sep = [[]]"
| "Split (c # cs) sep =
     (if c = sep then [] # Split cs sep
      else (case Split cs sep of [] \<Rightarrow> [[c]] | piece # pieces \<Rightarrow> (c # piece) # pieces))"

text \<open>
  \<open>fixCRDNamespace\<close> works on a deep copy. Its first block assigns the namespace of the
  webhook's backing service through the pointers of the copy; its second block rewrites
  the annotation in the copy's own annotation map.
\<close>

definition assignServiceNamespace :: "heap \<Rightarrow> CRD \<Rightarrow> string \<Rightarrow> heap" where
  "assignServiceNamespace h result namespace =
     (case Conversion (Spec result) of
        None \<Rightarrow> h
      | Some pc \<Rightarrow>
          (case Webhook (conversions h pc) of
             None \<Rightarrow> h
           | Some pw \<Rightarrow>
               (case ClientConfig (webhooks h pw) of
                  None \<Rightarrow> h
                | Some pcc \<Rightarrow>
                    (case Service (clientConfigs h pcc) of
                       None \<Rightarrow> h
                     | Some ps \<Rightarrow>
                         h\<lparr>services := (services h)
                              (ps := (services h ps)\<lparr>Namespace := namespace\<rparr>)\<rparr>))))"

definition assignInjectCAFrom :: "CRD \<Rightarrow> string \<Rightarrow> CRD" where
  "assignInjectCAFrom result namespace =
     (case Annotations result of
        None \<Rightarrow> result
      | Some annotations \<Rightarrow>
          if length annotations > 0 then
            (case index (Some annotations) certMgrInjectCAFromAnnotation of
               (injectCAFrom, ok) \<Rightarrow>
                 if ok then
                   (let split = Split injectCAFrom (CHR ''/'')
                    in if length split = 2
                       then result\<lparr>Annotations := Some
                              (AList.update certMgrInjectCAFromAnnotation
                                 (namespace @ ''/'' @ split ! 1) annotations)\<rparr>
                       else result)
                 else result)
          else result)"

definition fixCRDNamespace :: "heap \<Rightarrow> CRD \<Rightarrow> string \<Rightarrow> CRD \<times> heap" where
  "fixCRDNamespace h crd namespace =
     (let (result, h) = DeepCopy h crd;
          h = assignServiceNamespace h result namespace;
          result = assignInjectCAFrom result namespace
      in (result, h))"

definition fixCRDNamespaceRefs :: "heap \<Rightarrow> CRD list \<Rightarrow> string \<Rightarrow> CRD list \<times> heap" where
  "fixCRDNamespaceRefs h crds namespace =
     fold (\<lambda>crd (results, h).
            case fixCRDNamespace h crd namespace of (crd, h) \<Rightarrow> (results @ [crd], h))
       crds ([], h)"

text \<open>
  The rewrite as the specification words it, on dereferenced CRDs. The namespace of the
  conversion webhook's backing service becomes the target namespace when the service is
  present.
\<close>

definition setServiceNamespace :: "string \<Rightarrow> CRDV \<Rightarrow> CRDV" where
  "setServiceNamespace namespace v =
     v\<lparr>Spec := (Spec v)\<lparr>Conversion :=
        map_option (\<lambda>conv. conv\<lparr>Webhook :=
          map_option (\<lambda>hook. hook\<lparr>ClientConfig :=
            map_option (\<lambda>cfg. cfg\<lparr>Service :=
              map_option (\<lambda>svc. svc\<lparr>Namespace := namespace\<rparr>) (Service cfg)\<rparr>)
              (ClientConfig hook)\<rparr>)
            (Webhook conv)\<rparr>)
          (Conversion (Spec v))\<rparr>\<rparr>"

text \<open>
  The certificate-injection annotation, of the form \<open><namespace>/<name>\<close>, becomes
  \<open><target namespace>/<name>\<close> when its value has exactly one separator; \<open><name>\<close> is what
  follows the separator.
\<close>

definition afterSeparator :: "string \<Rightarrow> string" where
  "afterSeparator s = tl (dropWhile (\<lambda>c. c \<noteq> CHR ''/'') s)"

definition rewriteInjectCAFrom :: "string \<Rightarrow> CRDV \<Rightarrow> CRDV" where
  "rewriteInjectCAFrom namespace v =
     (case Annotations v of
        None \<Rightarrow> v
      | Some annotations \<Rightarrow>
          (case map_of annotations certMgrInjectCAFromAnnotation of
             None \<Rightarrow> v
           | Some injectCAFrom \<Rightarrow>
               if count_list injectCAFrom (CHR ''/'') = 1
               then v\<lparr>Annotations := Some
                      (AList.update certMgrInjectCAFromAnnotation
                         (namespace @ ''/'' @ afterSeparator injectCAFrom) annotations)\<rparr>
               else v))"

text \<open>The namespace of the webhook's backing service in a dereferenced CRD, when there is one.\<close>

definition serviceNamespace :: "CRDV \<Rightarrow> string option" where
  "serviceNamespace v =
     (case Conversion (Spec v) of
        None \<Rightarrow> None
      | Some conv \<Rightarrow>
          (case Webhook conv of
             None \<Rightarrow> None
           | Some hook \<Rightarrow>
               (case ClientConfig hook of
                  None \<Rightarrow> None
                | Some cfg \<Rightarrow> map_option Namespace (Service cfg))))"

section \<open>The apply engine under the leader lease\<close>

definition filterInstallationInstructions ::
  "CRDInstallationInstruction list \<Rightarrow> CRDInstallationInstruction list" where
  "filterInstallationInstructions instructions = filter ShouldApply instructions"

text \<open>
  What \<open>applyCRDs\<close> is run with, and what the cluster answers: the result of
  \<open>ListCRDs\<close> at the recheck, whether \<open>CreateOrUpdate\<close> of the CRD of a name succeeds,
  and whether leadership can be taken away from this replica while it leads.
\<close>

record Scenario =
  planEnv :: Env
  planStore :: heap
  goals :: "CRD list"
  CRDPatterns :: string
  listCRDs :: "error + CRD list"
  createOrUpdate :: "string \<Rightarrow> bool"
  leadershipMayBeLost :: bool

text \<open>
  The double-checked locking of \<open>applyCRDs\<close>: list the CRDs of the cluster again, plan
  again, and keep the instructions to apply.
\<close>

definition recheck :: "Scenario \<Rightarrow> error + CRDInstallationInstruction list" where
  "recheck sc =
     (case listCRDs sc of
        Inl err \<Rightarrow> Inl ListFailed
      | Inr existing \<Rightarrow>
          (case fst (DetermineCRDsToInstallOrUpgrade (planEnv sc) (planStore sc) (goals sc) existing
                       (CRDPatterns sc)) of
             Inl err \<Rightarrow> Inl (DetermineFailed err)
           | Inr instructions \<Rightarrow> Inr (filterInstallationInstructions instructions)))"

text \<open>
  \<open>applyCRDs\<close> with a leader elector runs beside the election loop it starts with
  \<open>go m.leaderElection.Elector.Run(ctx)\<close>, and the two meet at the two wait groups and
  at the context. The process is therefore a transition system. Its state holds where
  \<open>applyCRDs\<close> stands, where the election loop stands, where the \<open>OnStartedLeading\<close>
  callback stands, the shared variables of \<open>NewLeaderElector\<close> (whether each wait group
  is done, whether \<open>leaderContext\<close> has been recorded), whether the context has been
  cancelled, the names of the CRDs written so far, and the exit status once the process
  has called \<open>os.Exit\<close>.

  Where \<open>applyCRDs\<close> stands:
  \<^item> \<open>AcquireWait\<close>: at \<open>LeaseAcquired.Wait()\<close>;
  \<^item> \<open>Recheck\<close>: before the double-checked locking;
  \<^item> \<open>Apply is\<close>: in the loop, with \<open>is\<close> still to write;
  \<^item> \<open>GiveUp\<close>, \<open>GiveUpWait\<close>: at \<open>cancel()\<close> and \<open>LeaseReleased.Wait()\<close> after the loop;
  \<^item> \<open>ExitZero\<close>: at its own \<open>os.Exit(0)\<close>;
  \<^item> \<open>DeferCancel r\<close>, \<open>DeferWait r\<close>: returning \<open>r\<close>, at \<open>cancel()\<close> and
    \<open>LeaseReleased.Wait()\<close> of the deferred function;
  \<^item> \<open>Returned r\<close>: it has returned \<open>r\<close> to its caller.
\<close>

datatype mainPc =
    AcquireWait
  | Recheck
  | Apply "CRDInstallationInstruction list"
  | GiveUp
  | GiveUpWait
  | ExitZero
  | DeferCancel "error option"
  | DeferWait "error option"
  | Returned "error option"

text \<open>
  Modelled from the spec: the lease primitive, which is not of this repository. It runs
  a loop that calls \<open>OnStartedLeading\<close> once this replica becomes leader and
  \<open>OnStoppedLeading\<close> once leadership ends, for any reason: because the context was
  cancelled (cooperative release), or because leadership was lost. The election loop is
  \<open>Acquiring\<close>, then \<open>Leading\<close>, then in \<open>OnStoppedLeading\<close>: \<open>Stopping\<close> before
  \<open>leaseReleasedWait.Done()\<close>, \<open>StopExit\<close> before \<open>os.Exit(exitCode)\<close>.
\<close>

datatype electorPc = Acquiring | Leading | Stopping | StopExit

text \<open>
  \<open>OnStartedLeading\<close>: \<open>NotStarted\<close>, \<open>Signalled\<close> after \<open>leaseAcquiredWait.Done()\<close>,
  \<open>Recorded\<close> after \<open>leaderContext = ctx\<close>.
\<close>

datatype startedPc = NotStarted | Signalled | Recorded

record process =
  main :: mainPc
  elector :: electorPc
  started :: startedPc
  cancelled :: bool
  leaseAcquired :: bool
  leaseReleased :: bool
  leaderContext :: bool
  writes :: "string list"
  exited :: "nat option"


text \<open>
  The exit status \<open>OnStoppedLeading\<close> computes: 0 if the leader context was recorded and
  is done, 1 otherwise. The leader context is done when the context of \<open>applyCRDs\<close>
  has been cancelled.
\<close>

definition exitCode :: "process \<Rightarrow> nat" where
  "exitCode s = (if leaderContext s \<and> cancelled s then 0 else 1)"

inductive step :: "Scenario \<Rightarrow> process \<Rightarrow> process \<Rightarrow> bool" for sc :: Scenario where
  acquire:
    "exited s = None \<Longrightarrow> elector s = Acquiring \<Longrightarrow> step sc s (s\<lparr>elector := Leading\<rparr>)"
| started_done:
    "exited s = None \<Longrightarrow> elector s \<noteq> Acquiring \<Longrightarrow> started s = NotStarted \<Longrightarrow>
     step sc s (s\<lparr>leaseAcquired := True, started := Signalled\<rparr>)"
| started_record:
    "exited s = None \<Longrightarrow> started s = Signalled \<Longrightarrow>
     step sc s (s\<lparr>leaderContext := True, started := Recorded\<rparr>)"
| release:
    "exited s = None \<Longrightarrow> elector s = Leading \<Longrightarrow> cancelled s \<Longrightarrow>
     step sc s (s\<lparr>elector := Stopping\<rparr>)"
| lose:
    "exited s = None \<Longrightarrow> elector s = Leading \<Longrightarrow> leadershipMayBeLost sc \<Longrightarrow>
     step sc s (s\<lparr>elector := Stopping\<rparr>)"
| stopped_done:
    "exited s = None \<Longrightarrow> elector s = Stopping \<Longrightarrow>
     step sc s (s\<lparr>leaseReleased := True, elector := StopExit\<rparr>)"
| stopped_exit:
    "exited s = None \<Longrightarrow> elector s = StopExit \<Longrightarrow>
     step sc s (s\<lparr>exited := Some (exitCode s)\<rparr>)"
| acquired:
    "exited s = None \<Longrightarrow> main s = AcquireWait \<Longrightarrow> leaseAcquired s \<Longrightarrow>
     step sc s (s\<lparr>main := Recheck\<rparr>)"
| rechecked:
    "exited s = None \<Longrightarrow> main s = Recheck \<Longrightarrow>
     step sc s (s\<lparr>main :=
       (case recheck sc of
          Inl err \<Rightarrow> DeferCancel (Some err)
        | Inr [] \<Rightarrow> DeferCancel None
        | Inr (i # is) \<Rightarrow> Apply (i # is))\<rparr>)"
| apply_ok:
    "exited s = None \<Longrightarrow> main s = Apply (i # is) \<Longrightarrow> createOrUpdate sc (Name (CRD i)) \<Longrightarrow>
     step sc s (s\<lparr>writes := writes s @ [Name (CRD i)], main := Apply is\<rparr>)"
| apply_failed:
    "exited s = None \<Longrightarrow> main s = Apply (i # is) \<Longrightarrow> \<not> createOrUpdate sc (Name (CRD i)) \<Longrightarrow>
     step sc s (s\<lparr>writes := writes s @ [Name (CRD i)],
                  main := DeferCancel (Some (ApplyFailed (Name (CRD i))))\<rparr>)"
| apply_done:
    "exited s = None \<Longrightarrow> main s = Apply [] \<Longrightarrow> step sc s (s\<lparr>main := GiveUp\<rparr>)"
| give_up:
    "exited s = None \<Longrightarrow> main s = GiveUp \<Longrightarrow>
     step sc s (s\<lparr>cancelled := True, main := GiveUpWait\<rparr>)"
| give_up_wait:
    "exited s = None \<Longrightarrow> main s = GiveUpWait \<Longrightarrow> leaseReleased s \<Longrightarrow>
     step sc s (s\<lparr>main := ExitZero\<rparr>)"
| exit_zero:
    "exited s = None \<Longrightarrow> main s = ExitZero \<Longrightarrow> step sc s (s\<lparr>exited := Some 0\<rparr>)"
| defer_cancel:
    "exited s = None \<Longrightarrow> main s = DeferCancel r \<Longrightarrow>
     step sc s (s\<lparr>cancelled := True, main := DeferWait r\<rparr>)"
| defer_wait:
    "exited s = None \<Longrightarrow> main s = DeferWait r \<Longrightarrow> leaseReleased s \<Longrightarrow>
     step sc s (s\<lparr>main := Returned r\<rparr>)"



section \<open>CloudError\<close>

text \<open>
  The struct \<open>content\<close> that \<open>UnmarshalJSON\<close> decodes into: code, message, target and
  details at the top level, and the same four under \<open>error\<close> (\<open>InnerError\<close>, a pointer:
  \<open>None\<close> when the body has no \<open>error\<close> object). The details are a slice of
  \<open>ErrorResponse\<close>, a type declared outside cloud_error.go: it is a type parameter.
\<close>

record 'd ErrorContent =
  Code :: "string option"
  Message :: "string option"
  Target :: "string option"
  Details :: 'd

record 'd UnmarshalContent = "'d ErrorContent" +
  InnerError :: "'d ErrorContent option"

text \<open>The \<open>CloudError\<close> itself; \<open>wrapped\<close> is its field \<open>error\<close>.\<close>

record ('e, 'd) CloudError =
  wrapped :: 'e
  code :: "string option"
  message :: "string option"
  target :: "string option"
  details :: 'd

text \<open>\<open>eris.Wrap(err, msg)\<close>.\<close>

datatype 'j wrappedError = Wrap 'j string

text \<open>
  \<open>json.Unmarshal(data, &content)\<close> is a parameter: it gives the error of
  \<open>encoding/json\<close> or the decoded struct. \<open>UnmarshalJSON\<close> returns its error, \<open>None\<close>
  for \<open>nil\<close>, and the \<open>CloudError\<close> it leaves.
\<close>

definition UnmarshalJSON ::
  "(string \<Rightarrow> 'j + 'd UnmarshalContent) \<Rightarrow> ('e, 'd) CloudError \<Rightarrow> string \<Rightarrow>
   'j wrappedError option \<times> ('e, 'd) CloudError" where
  "UnmarshalJSON unmarshal e data =
     (case unmarshal data of
        Inl err \<Rightarrow> (Some (Wrap err ''unmarshalling JSON for CloudError''), e)
      | Inr content \<Rightarrow>
          (case InnerError content of
             Some innerError \<Rightarrow>
               (None, e\<lparr>code := Code innerError, message := Message innerError,
                         target := Target innerError, details := Details innerError\<rparr>)
           | None \<Rightarrow>
               (None, e\<lparr>code := Code content, message := Message content,
                         target := Target content, details := Details content\<rparr>)))"

section \<open>Example data\<close>

text \<open>
  A store with two CRDs of the same name that both convert through a webhook. The
  existing one, read from the cluster, carries version \<open>v2.0.0\<close> and the CA bundle
  that cert-manager injected; the goal one carries version \<open>v2.1.0\<close> and no bundle.
\<close>

definition exampleService :: ServiceReference where
  "exampleService = \<lparr>Namespace = ''old-ns'', ServiceName = ''webhook-service'',
     Path = Some ''/convert'', Port = Some 443\<rparr>"

definition exampleHeap :: heap where
  "exampleHeap =
     \<lparr>conversions = (\<lambda>p. \<lparr>Strategy = ''Webhook'',
          Webhook = (if p = 0 then Some 1 else if p = 4 then Some 5 else None)\<rparr>),
      webhooks = (\<lambda>p. \<lparr>ClientConfig = (if p = 1 then Some 2 else if p = 5 then Some 6 else None),
          ConversionReviewVersions = Some [''v1'']\<rparr>),
      clientConfigs = (\<lambda>p. \<lparr>URL = None,
          Service = (if p = 2 then Some 3 else if p = 6 then Some 7 else None),
          CABundle = (if p = 6 then Some [48, 130, 1] else None)\<rparr>),
      services = (\<lambda>p. exampleService),
      nextAddr = 8\<rparr>"

definition exampleNames :: GoValue where
  "exampleNames = GoStruct [(''Plural'', GoString ''foos''), (''Singular'', GoString ''foo''),
     (''ShortNames'', GoNil), (''Kind'', GoString ''Foo''), (''ListKind'', GoString ''FooList''),
     (''Categories'', GoNil)]"

definition exampleVersion :: "string \<Rightarrow> GoValue" where
  "exampleVersion name = GoStruct [(''Name'', GoString name), (''Served'', GoBool True),
     (''Storage'', GoBool (name = ''v1'')), (''Deprecated'', GoBool False),
     (''DeprecationWarning'', GoNil), (''Schema'', GoNil), (''Subresources'', GoNil),
     (''AdditionalPrinterColumns'', GoNil), (''SelectableFields'', GoNil)]"

definition exampleGoal :: CRD where
  "exampleGoal =
     \<lparr>Name = ''foos.example.com'',
      Labels = Some [(''app.kubernetes.io/version'', ''v2.1.0'')],
      Annotations = Some [(''cert-manager.io/inject-ca-from'', ''old-ns/some-cert'')],
      ResourceVersion = '''',
      Spec = \<lparr>Group = ''example.com'', Names = exampleNames, Scope = ''Namespaced'',
        Versions = GoSlice [exampleVersion ''v1''], Conversion = Some 0,
        PreserveUnknownFields = False\<rparr>\<rparr>"

definition exampleExisting :: CRD where
  "exampleExisting =
     \<lparr>Name = ''foos.example.com'',
      Labels = Some [(''app.kubernetes.io/version'', ''v2.0.0'')],
      Annotations = Some [(''cert-manager.io/inject-ca-from'', ''old-ns/some-cert'')],
      ResourceVersion = ''41'',
      Spec = \<lparr>Group = ''example.com'', Names = exampleNames, Scope = ''Namespaced'',
        Versions = GoSlice [exampleVersion ''v1''], Conversion = Some 4,
        PreserveUnknownFields = False\<rparr>\<rparr>"

text \<open>
  A goal CRD named \<open>foo-bar\<close> that does not exist in the cluster, and a pair whose
  goal differs from the existing CRD in version and in spec.
\<close>

definition fooBar :: CRD where
  "fooBar = (zeroCRD :: CRD)\<lparr>Name := ''foo-bar''\<rparr>"

definition barExisting :: CRD where
  "barExisting = (zeroCRD :: CRD)\<lparr>Name := ''bars.example.com'',
     Labels := Some [(''app.kubernetes.io/version'', ''v2.0.0'')]\<rparr>"

definition barGoal :: CRD where
  "barGoal = barExisting\<lparr>Labels := Some [(''app.kubernetes.io/version'', ''v2.1.0'')],
     Spec := (Spec barExisting)\<lparr>Versions :=
       GoSlice [exampleVersion ''v1'', exampleVersion ''v2'']\<rparr>\<rparr>"

text \<open>
  Modelled from the spec: an instance of what the planner takes from outside manager.go,
  for the examples. The pattern specification is a list of patterns separated by
  \<open>;\<close>, a pattern matches by wildcard (\<open>*\<close> for any run of characters, \<open>?\<close> for
  any one character), the string matched is the name of the CRD, and the runtime
  enumerates a map from its last key to its first.
\<close>

fun wildcardMatch :: "string \<Rightarrow> string \<Rightarrow> bool" where
  "wildcardMatch [] [] = True"
| "wildcardMatch [] (c # cs) = False"
| "wildcardMatch (p # ps) [] = (p = CHR ''*'' \<and> wildcardMatch ps [])"
| "wildcardMatch (p # ps) (c # cs) =
     (if p = CHR ''*'' then wildcardMatch ps (c # cs) \<or> wildcardMatch (p # ps) cs
      else (p = CHR ''?'' \<or> p = c) \<and> wildcardMatch ps cs)"

definition exampleEnv :: Env where
  "exampleEnv = \<lparr>makeMatchString = Name, splitPatterns = (\<lambda>s. Split s (CHR '';'')),
     patternMatches = wildcardMatch, rangeOrder = (\<lambda>i ks. rev ks)\<rparr>"

definition bazExisting :: CRD where
  "bazExisting = (zeroCRD :: CRD)\<lparr>Name := ''bazs.example.com'',
     Labels := Some [(''app.kubernetes.io/version'', ''v2.1.0'')]\<rparr>"

definition bazGoal :: CRD where
  "bazGoal = bazExisting\<lparr>Spec := (Spec bazExisting)\<lparr>Scope := ''Cluster''\<rparr>\<rparr>"

definition exampleGoals :: "CRD list" where
  "exampleGoals = [fooBar, exampleGoal, barGoal, bazGoal]"

definition exampleExistings :: "CRD list" where
  "exampleExistings = [exampleExisting, barExisting, bazExisting]"

text \<open>The plan for the example goals against the example cluster, with the pattern \<open>foo-*\<close>.\<close>

definition examplePlan :: "CRDInstallationInstruction list" where
  "examplePlan =
     [\<lparr>CRD = bazGoal, FilterResult = MatchedExistingCRD,
       FilterReason = AlreadyInstalled ''bazs.example.com'', DiffResult = SpecDifferent\<rparr>,
      \<lparr>CRD = barGoal, FilterResult = MatchedExistingCRD,
       FilterReason = AlreadyInstalled ''bars.example.com'', DiffResult = VersionDifferent\<rparr>,
      \<lparr>CRD = exampleGoal, FilterResult = MatchedExistingCRD,
       FilterReason = AlreadyInstalled ''foos.example.com'', DiffResult = VersionDifferent\<rparr>,
      \<lparr>CRD = fooBar, FilterResult = MatchedPattern,
       FilterReason = MatchedByPattern ''foo-bar'' ''foo-*'', DiffResult = NoDifference\<rparr>]"

text \<open>The instruction map for the example goals after the two filter passes.\<close>

definition exampleFiltered :: "(string \<times> CRDInstallationInstruction) list" where
  "exampleFiltered =
     [(''foo-bar'', \<lparr>CRD = fooBar, FilterResult = MatchedPattern,
         FilterReason = MatchedByPattern ''foo-bar'' ''foo-*'', DiffResult = NoDifference\<rparr>),
      (''foos.example.com'', \<lparr>CRD = exampleGoal, FilterResult = MatchedExistingCRD,
         FilterReason = AlreadyInstalled ''foos.example.com'', DiffResult = NoDifference\<rparr>),
      (''bars.example.com'', \<lparr>CRD = barGoal, FilterResult = MatchedExistingCRD,
         FilterReason = AlreadyInstalled ''bars.example.com'', DiffResult = NoDifference\<rparr>),
      (''bazs.example.com'', \<lparr>CRD = bazGoal, FilterResult = MatchedExistingCRD,
         FilterReason = AlreadyInstalled ''bazs.example.com'', DiffResult = NoDifference\<rparr>)]"



text \<open>
  A decoded error body with both a top-level code and a nested \<open>error\<close> object, the
  same body without the nested object, and a \<open>CloudError\<close> before unmarshalling.
\<close>

definition nestedContent :: "string list UnmarshalContent" where
  "nestedContent = \<lparr>Code = Some ''TopLevel'', Message = Some ''ignored'', Target = None,
     Details = [''top''],
     InnerError = Some \<lparr>Code = Some ''Conflict'', Message = Some ''busy'',
       Target = Some ''vm1'', Details = [''nested'']\<rparr>\<rparr>"

definition flatContent :: "string list UnmarshalContent" where
  "flatContent = nestedContent\<lparr>InnerError := None\<rparr>"

definition freshCloudError :: "(string, string list) CloudError" where
  "freshCloudError = \<lparr>wrapped = ''409 Conflict'', code = None, message = None,
     target = None, details = []\<rparr>"

section \<open>Invariants of the planner's loops\<close>

text \<open>
  Predicates the proofs below use: what the seed loop establishes for the instruction of
  a name, when a CRD is selected by one of a list of patterns, what the pattern loop
  maintains between the map it started from and the map it has reached after visiting
  the names \<open>V\<close>, and the candidates of the pattern pass (the CRDs of the seeded
  instructions: one per goal name).
\<close>

definition seeded :: "Env \<Rightarrow> CRD list \<Rightarrow> string \<Rightarrow> CRDInstallationInstruction \<Rightarrow> bool" where
  "seeded env goal n i \<longleftrightarrow> CRD i \<in> set goal \<and> Name (CRD i) = n \<and> FilterResult i = Excluded \<and>
     FilterReason i = NotMatchedNotExisting (makeMatchString env (CRD i)) \<and> DiffResult i = NoDifference"

definition selectedBy :: "Env \<Rightarrow> string list \<Rightarrow> CRD \<Rightarrow> bool" where
  "selectedBy env cls crd = (\<exists>p \<in> set cls. patternMatches env p (makeMatchString env crd))"

definition patternInv ::
  "Env \<Rightarrow> string list \<Rightarrow> string set \<Rightarrow> (string \<times> CRDInstallationInstruction) list \<Rightarrow>
   (string \<times> CRDInstallationInstruction) list \<Rightarrow> bool" where
  "patternInv env cls V m0 cur \<longleftrightarrow>
     map fst cur = map fst m0 \<and>
     (\<forall>n orig. map_of m0 n = Some orig \<longrightarrow>
        (\<exists>i. map_of cur n = Some i \<and> CRD i = CRD orig \<and> DiffResult i = DiffResult orig \<and>
           FilterResult i =
             (if n \<in> V \<and> selectedBy env cls (CRD orig) then MatchedPattern
              else FilterResult orig)))"

definition candidates :: "Env \<Rightarrow> CRD list \<Rightarrow> CRD list" where
  "candidates env goalCRDs = map (\<lambda>entry. CRD (snd entry)) (seedInstructions env goalCRDs)"

section \<open>The store: copies and frames\<close>

lemmas view_defs = view_def viewSpec_def viewConversion_def viewWebhook_def viewClientConfig_def

lemmas cells_defs = cells_def convOf_def hookOf_def cfgOf_def svcOf_def

lemmas deepCopy_defs = DeepCopy_def deepCopyConversion_def deepCopyWebhook_def
  deepCopyClientConfig_def deepCopyService_def

text \<open>
  A deep copy allocates, writes only to the cells it allocates, lives in those cells, and
  dereferences to what the original dereferences to.
\<close>

lemma DeepCopy_props:
  assumes "DeepCopy h a = (a', h')"
  shows "nextAddr h \<le> nextAddr h'" "agree_below (nextAddr h) h h'"
    "within (nextAddr h) h' a'" "view h' a' = view h a" "Name a' = Name a"
  using assms
  by (auto simp: deepCopy_defs agree_below_def Let_def within_def cells_defs view_defs
      split: option.splits prod.splits)

lemma agree_below_refl: "agree_below N h h"
  by (simp add: agree_below_def)

lemma agree_below_trans:
  "agree_below N h1 h2 \<Longrightarrow> agree_below N h2 h3 \<Longrightarrow> agree_below N h1 h3"
  by (simp add: agree_below_def)

lemma agree_below_mono: "agree_below M h h' \<Longrightarrow> N \<le> M \<Longrightarrow> agree_below N h h'"
  by (simp add: agree_below_def)

lemma map_option_agree:
  "(\<forall>p \<in> set_option x. f p = g p) \<Longrightarrow> map_option f x = map_option g x"
  by (cases x) auto

lemma frame_cells:
  assumes "agree_below N h h'" "\<forall>p \<in> cells h a. p < N"
  shows "cells h' a = cells h a"
  using assms
  by (auto simp: agree_below_def cells_defs split: option.splits)

lemma frame_view:
  assumes "agree_below N h h'" "\<forall>p \<in> cells h a. p < N"
  shows "view h' a = view h a"
  using assms
  by (auto simp: agree_below_def cells_defs view_defs split: option.splits
      intro!: map_option_agree)

lemma within_frame:
  assumes "within N h a" "agree_below (nextAddr h) h h'" "nextAddr h \<le> nextAddr h'"
  shows "within N h' a"
proof -
  have "\<forall>p \<in> cells h a. p < nextAddr h"
    using assms(1) by (simp add: within_def)
  with assms(2) have "cells h' a = cells h a"
    by (rule frame_cells)
  then show ?thesis
    using assms(1,3) by (auto simp: within_def)
qed

lemma within_mono: "within M h a \<Longrightarrow> N \<le> M \<Longrightarrow> within N h a"
  by (auto simp: within_def)

lemma valid_below: "valid h a \<Longrightarrow> \<forall>p \<in> cells h a. p < nextAddr h"
  by (simp add: valid_def)

subsection \<open>Confined comparators\<close>

lemma confined_readOnly: "confined (readOnly f)"
  by (simp add: confined_def readOnly_def agree_below_def)

lemma confined_invert: "confined c \<Longrightarrow> confined (invert c)"
  by (simp add: confined_def invert_def split_beta)

lemma confined_SpecEqual: "confined SpecEqual"
  unfolding confined_def SpecEqual_def ignoreCABundle_def
  by (auto simp: agree_below_def Let_def within_def cells_defs split: option.splits)

lemma confined_SpecEqualIgnoreConversionWebhook: "confined SpecEqualIgnoreConversionWebhook"
  unfolding confined_def SpecEqualIgnoreConversionWebhook_def ignoreConversionWebhook_def
  by (auto simp: agree_below_def Let_def within_def cells_defs split: option.splits)

lemma confinedD:
  assumes "confined c" "N \<le> nextAddr h" "within N h a" "within N h b"
  shows "nextAddr h \<le> nextAddr (snd (c h a b))" "agree_below N h (snd (c h a b))"
    "within N (snd (c h a b)) a" "within N (snd (c h a b)) b"
  using assms unfolding confined_def Let_def by blast+

lemma runComparators_confined:
  assumes "\<forall>c \<in> set cs. confined c" "N \<le> nextAddr h" "within N h a" "within N h b"
  shows "nextAddr h \<le> nextAddr (snd (runComparators cs h a b)) \<and>
         agree_below N h (snd (runComparators cs h a b))"
  using assms
proof (induction cs arbitrary: h)
  case Nil
  then show ?case by (simp add: agree_below_refl)
next
  case (Cons c cs)
  obtain r h' where c: "c h a b = (r, h')" by (cases "c h a b")
  have conf: "confined c" using Cons.prems(1) by simp
  from confinedD[OF conf Cons.prems(2,3,4)] c
  have step: "nextAddr h \<le> nextAddr h'" "agree_below N h h'" "within N h' a" "within N h' b"
    by simp_all
  show ?case
  proof (cases r)
    case False
    then show ?thesis using c step by simp
  next
    case True
    have "N \<le> nextAddr h'" using Cons.prems(2) step(1) by simp
    with Cons.IH[of h'] Cons.prems(1) step
    have "nextAddr h' \<le> nextAddr (snd (runComparators cs h' a b)) \<and>
          agree_below N h' (snd (runComparators cs h' a b))"
      by simp
    then show ?thesis
      using True c step by (auto intro: agree_below_trans)
  qed
qed

subsection \<open>The lookup map of the existing CRDs\<close>

lemma map_of_fold_update_Name:
  "map_of (fold (\<lambda>crd m. AList.update (Name crd) crd m) xs m0) n = Some e \<Longrightarrow>
   (e \<in> set xs \<and> Name e = n) \<or> map_of m0 n = Some e"
proof (induction xs arbitrary: m0)
  case Nil
  then show ?case by simp
next
  case (Cons a xs)
  from Cons.IH[of "AList.update (Name a) a m0"] Cons.prems
  have "(e \<in> set xs \<and> Name e = n) \<or> map_of (AList.update (Name a) a m0) n = Some e"
    by simp
  then show ?case
    by (auto simp: update_conv' split: if_splits)
qed

lemma existingCRDs_Some:
  "map_of (existingCRDs existing) n = Some e \<Longrightarrow> e \<in> set existing \<and> Name e = n"
  using map_of_fold_update_Name[of existing "[]" n e] by (simp add: existingCRDs_def)

lemma cells_zeroCRD: "cells h zeroCRD = {}"
  by (simp add: cells_defs zeroCRD_def)

lemma existingFor_cells:
  assumes "\<forall>x \<in> set existing. \<forall>p \<in> cells h x. p < N"
  shows "\<forall>p \<in> cells h (existingFor existing g). p < N"
proof (cases "map_of (existingCRDs existing) (Name g)")
  case None
  then show ?thesis by (simp add: existingFor_def cells_zeroCRD)
next
  case (Some e)
  then have "e \<in> set existing" by (simp add: existingCRDs_Some)
  then show ?thesis using assms Some by (simp add: existingFor_def)
qed

subsection \<open>The loop over the goal CRDs\<close>

text \<open>One round of the loop, seen from the store the caller knows.\<close>

lemma matchGoals_step:
  assumes copyE: "DeepCopy h e = (e', h1)"
    and copyG: "DeepCopy h1 g = (g', h2)"
    and N: "N \<le> nextAddr h"
  shows "N \<le> nextAddr h2" "agree_below N h h2" "within N h2 e'" "within N h2 g'"
    "view h2 e' = view h e" "view h2 g' = view h1 g"
proof -
  note E = DeepCopy_props[OF copyE]
  note G = DeepCopy_props[OF copyG]
  show "N \<le> nextAddr h2" using N E(1) G(1) by simp
  show "agree_below N h h2"
    using E(2) G(2) E(1) N by (meson agree_below_mono agree_below_trans le_trans)
  have "within (nextAddr h) h2 e'" using within_frame[OF E(3) G(2) G(1)] .
  then show "within N h2 e'" using N by (rule within_mono)
  show "within N h2 g'" using G(3) E(1) N by (meson within_mono le_trans)
  have "\<forall>p \<in> cells h1 e'. p < nextAddr h1" using E(3) by (simp add: within_def)
  with G(2) have "view h2 e' = view h1 e'" by (rule frame_view)
  then show "view h2 e' = view h e" using E(4) by simp
  show "view h2 g' = view h1 g" using G(4) .
qed

lemma matchGoals_frame:
  assumes "\<forall>c \<in> set cs. confined c" "N \<le> nextAddr h"
  shows "N \<le> nextAddr (snd (matchGoals cs ex goal h m)) \<and>
         agree_below N h (snd (matchGoals cs ex goal h m))"
  using assms(2)
proof (induction goal arbitrary: h m)
  case Nil
  then show ?case by (simp add: agree_below_refl)
next
  case (Cons g rest)
  define e where "e = (case map_of ex (Name g) of None \<Rightarrow> zeroCRD | Some e \<Rightarrow> e)"
  obtain e' h1 where copyE: "DeepCopy h e = (e', h1)" by (cases "DeepCopy h e")
  obtain g' h2 where copyG: "DeepCopy h1 g = (g', h2)" by (cases "DeepCopy h1 g")
  obtain eq h3 where run: "runComparators cs h2 e' g' = (eq, h3)"
    by (cases "runComparators cs h2 e' g'")
  note S = matchGoals_step[OF copyE copyG Cons.prems]
  from runComparators_confined[OF assms(1) S(1) S(3) S(4)] run
  have R: "nextAddr h2 \<le> nextAddr h3" "agree_below N h2 h3" by simp_all
  have N3: "N \<le> nextAddr h3" using S(1) R(1) by simp
  have A3: "agree_below N h h3" using S(2) R(2) by (rule agree_below_trans)
  have unfold: "matchGoals cs ex (g # rest) h m =
      matchGoals cs ex rest h3 (if eq then AList.update (Name g') g' m else m)"
    using copyE copyG run by (simp add: e_def)
  show ?case
    unfolding unfold using Cons.IH[OF N3] A3 by (auto intro: agree_below_trans)
qed

subsection \<open>Which goal CRDs the loop keeps\<close>

lemma keys_update: "fst ` set (AList.update k v m) = insert k (fst ` set m)"
proof -
  have "set (map fst (AList.update k v m)) = insert k (set (map fst m))"
    by (auto simp: update_keys)
  then show ?thesis by simp
qed

lemma runComparators_readOnly:
  "runComparators (map readOnly fs) h a b = ((\<forall>f \<in> set fs. f (view h a) (view h b)), h)"
  by (induction fs) (auto simp: readOnly_def)

lemma runComparators_invert_readOnly:
  "runComparators (map invert (map readOnly fs)) h a b =
     ((\<forall>f \<in> set fs. \<not> f (view h a) (view h b)), h)"
  by (induction fs) (auto simp: readOnly_def invert_def)

text \<open>
  When the comparators, run in order, decide by a predicate \<open>P\<close> on the dereferenced
  pair and leave the store alone, the loop keeps the names of the goal CRDs that satisfy
  \<open>P\<close> against their existing CRD.
\<close>

lemma matchGoals_decided:
  assumes dec: "\<And>h a b. runComparators cs h a b = (P (view h a) (view h b), h)"
    and goal: "\<forall>x \<in> set goal. \<forall>p \<in> cells h0 x. p < N"
    and ex: "\<forall>x \<in> set existing. \<forall>p \<in> cells h0 x. p < N"
    and N: "N \<le> nextAddr h" and A: "agree_below N h0 h"
  shows "fst ` set (fst (matchGoals cs (existingCRDs existing) goal h m)) =
         fst ` set m \<union>
         {Name g | g. g \<in> set goal \<and> P (view h0 (existingFor existing g)) (view h0 g)}"
  using goal N A
proof (induction goal arbitrary: h m)
  case Nil
  then show ?case by simp
next
  case (Cons g rest)
  define e where "e = existingFor existing g"
  obtain e' h1 where copyE: "DeepCopy h e = (e', h1)" by (cases "DeepCopy h e")
  obtain g' h2 where copyG: "DeepCopy h1 g = (g', h2)" by (cases "DeepCopy h1 g")
  note S = matchGoals_step[OF copyE copyG Cons.prems(2)]
  note E = DeepCopy_props[OF copyE]
  note G = DeepCopy_props[OF copyG]
  have A1: "agree_below N h0 h1"
    using Cons.prems(3) E(2) Cons.prems(2) by (meson agree_below_mono agree_below_trans)
  have A2: "agree_below N h0 h2"
    using Cons.prems(3) S(2) by (rule agree_below_trans)
  have ve: "view h2 e' = view h0 e"
    using S(5) frame_view[OF Cons.prems(3) existingFor_cells[OF ex]] by (simp add: e_def)
  have vg: "view h2 g' = view h0 g"
    using S(6) frame_view[OF A1, of g] Cons.prems(1) by simp
  let ?eq = "P (view h0 e) (view h0 g)"
  have run: "runComparators cs h2 e' g' = (?eq, h2)"
    by (simp add: dec ve vg)
  have unfold: "matchGoals cs (existingCRDs existing) (g # rest) h m =
      matchGoals cs (existingCRDs existing) rest h2
        (if ?eq then AList.update (Name g) g' m else m)"
    using copyE copyG run G(5) by (simp add: e_def existingFor_def)
  have rest: "\<forall>x \<in> set rest. \<forall>p \<in> cells h0 x. p < N" using Cons.prems(1) by simp
  show ?case
    unfolding unfold Cons.IH[OF rest S(1) A2]
    by (auto simp: keys_update e_def)
qed

text \<open>Whatever the comparators are, the loop keeps names of goal CRDs only.\<close>

lemma matchGoals_keys_subset:
  "fst ` set (fst (matchGoals cs ex goal h m)) \<subseteq> fst ` set m \<union> Name ` set goal"
proof (induction goal arbitrary: h m)
  case Nil
  then show ?case by simp
next
  case (Cons g rest)
  define e where "e = (case map_of ex (Name g) of None \<Rightarrow> zeroCRD | Some e \<Rightarrow> e)"
  obtain e' h1 where copyE: "DeepCopy h e = (e', h1)" by (cases "DeepCopy h e")
  obtain g' h2 where copyG: "DeepCopy h1 g = (g', h2)" by (cases "DeepCopy h1 g")
  obtain eq h3 where run: "runComparators cs h2 e' g' = (eq, h3)"
    by (cases "runComparators cs h2 e' g'")
  have name: "Name g' = Name g" using DeepCopy_props(5)[OF copyG] .
  have unfold: "matchGoals cs ex (g # rest) h m =
      matchGoals cs ex rest h3 (if eq then AList.update (Name g) g' m else m)"
    using copyE copyG run name by (simp add: e_def)
  show ?case
    unfolding unfold
    using Cons.IH[of h3 "if eq then AList.update (Name g) g' m else m"]
    by (auto simp: keys_update split: if_splits)
qed

lemma distinct_update_keys: "distinct (map fst m) \<Longrightarrow> distinct (map fst (AList.update k v m))"
  by (simp add: distinct_update)

lemma matchGoals_distinct:
  "distinct (map fst m) \<Longrightarrow> distinct (map fst (fst (matchGoals cs ex goal h m)))"
proof (induction goal arbitrary: h m)
  case Nil
  then show ?case by simp
next
  case (Cons g rest)
  define e where "e = (case map_of ex (Name g) of None \<Rightarrow> zeroCRD | Some e \<Rightarrow> e)"
  obtain e' h1 where copyE: "DeepCopy h e = (e', h1)" by (cases "DeepCopy h e")
  obtain g' h2 where copyG: "DeepCopy h1 g = (g', h2)" by (cases "DeepCopy h1 g")
  obtain eq h3 where run: "runComparators cs h2 e' g' = (eq, h3)"
    by (cases "runComparators cs h2 e' g'")
  have unfold: "matchGoals cs ex (g # rest) h m =
      matchGoals cs ex rest h3 (if eq then AList.update (Name g') g' m else m)"
    using copyE copyG run by (simp add: e_def)
  show ?case
    unfolding unfold
    using Cons.IH[of "if eq then AList.update (Name g') g' m else m" h3] Cons.prems
    by (simp add: distinct_update)
qed

lemma FindNonMatchingCRDs_keys_subset:
  "fst ` set (fst (FindNonMatchingCRDs h existing goal cs)) \<subseteq> Name ` set goal"
  using matchGoals_keys_subset[of "map invert cs" "existingCRDs existing" goal h "[]"]
  by (simp add: FindNonMatchingCRDs_def FindMatchingCRDs_def)

lemma FindNonMatchingCRDs_distinct:
  "distinct (map fst (fst (FindNonMatchingCRDs h existing goal cs)))"
  using matchGoals_distinct[of "[]" "map invert cs" "existingCRDs existing" goal h]
  by (simp add: FindNonMatchingCRDs_def FindMatchingCRDs_def)

subsection \<open>The example store\<close>

lemma example_valid: "valid exampleHeap exampleGoal" "valid exampleHeap exampleExisting"
  by (simp_all add: valid_def cells_defs exampleHeap_def exampleGoal_def exampleExisting_def)

lemma example_existingFor: "existingFor [exampleExisting] exampleGoal = exampleExisting"
  by (simp add: existingFor_def existingCRDs_def exampleGoal_def exampleExisting_def)

lemma example_VersionEqual:
  "\<not> VersionEqual (view exampleHeap exampleExisting) (view exampleHeap exampleGoal)"
  by (simp add: VersionEqual_def view_def exampleGoal_def exampleExisting_def index_def
      ServiceOperatorVersionLabel_def)

text \<open>
  \<open>SpecEqual\<close> finds the two example CRDs equal, and it does write through the pointers
  of its arguments: called on the caller's own CRDs it removes the CA bundle from them.
\<close>

lemma example_SpecEqual: "fst (SpecEqual exampleHeap exampleExisting exampleGoal)"
  by (simp add: SpecEqual_def ignoreCABundle_def view_defs exampleHeap_def exampleGoal_def
      exampleExisting_def exampleService_def)

lemma example_SpecEqual_writes:
  "view (snd (SpecEqual exampleHeap exampleExisting exampleGoal)) exampleExisting \<noteq>
   view exampleHeap exampleExisting"
  by (simp add: SpecEqual_def ignoreCABundle_def view_defs exampleHeap_def exampleGoal_def
      exampleExisting_def exampleService_def)

section \<open>The planner: lemmas\<close>

subsection \<open>Maps as association lists\<close>

lemma rangeOver_entries: "(k, v) \<in> set (rangeOver env i m) \<Longrightarrow> map_of m k = Some v"
  by (auto simp: rangeOver_def map_filter_def)

lemma map_of_keys_entries:
  assumes "distinct (map fst m)"
  shows "map (\<lambda>k. (k, the (map_of m k))) (map fst m) = m"
proof -
  have "\<forall>x \<in> set m. (fst x, the (map_of m (fst x))) = x"
  proof
    fix x assume "x \<in> set m"
    then have "(fst x, snd x) \<in> set m" by simp
    with assms have "map_of m (fst x) = Some (snd x)"
      by (rule map_of_is_SomeI)
    then show "(fst x, the (map_of m (fst x))) = x" by simp
  qed
  then have "map (\<lambda>x. (fst x, the (map_of m (fst x)))) m = m"
    by (simp add: map_idI)
  then show ?thesis by (simp add: comp_def)
qed

lemma rangeOver_mset:
  assumes "enumerates env" "distinct (map fst m)"
  shows "mset (rangeOver env i m) = mset m"
proof -
  let ?ks = "rangeOrder env i (map fst m)"
  let ?F = "\<lambda>k. (k, the (map_of m k))"
  have ms: "mset ?ks = mset (map fst m)" using assms(1) by (simp add: enumerates_def)
  then have ks: "set ?ks = set (map fst m)" by (rule mset_eq_setD)
  have "rangeOver env i m = map ?F ?ks"
    unfolding rangeOver_def map_filter_def
  proof -
    have all: "filter (\<lambda>k. map_option (Pair k) (map_of m k) \<noteq> None) ?ks = ?ks"
      using ks by (auto simp: filter_id_conv map_of_eq_None_iff)
    have "map (the \<circ> (\<lambda>k. map_option (Pair k) (map_of m k))) ?ks = map ?F ?ks"
      using ks by (intro map_cong) (auto simp: map_of_eq_None_iff option.map_sel)
    then show "map (the \<circ> (\<lambda>k. map_option (Pair k) (map_of m k)))
        (filter (\<lambda>k. map_option (Pair k) (map_of m k) \<noteq> None) ?ks) = map ?F ?ks"
      by (simp only: all)
  qed
  then have "mset (rangeOver env i m) = mset (map ?F ?ks)" by (simp only:)
  also have "\<dots> = mset (map ?F (map fst m))" by (simp only: mset_map ms)
  also have "\<dots> = mset m" by (simp only: map_of_keys_entries[OF assms(2)])
  finally show ?thesis .
qed

lemma rangeOver_set:
  assumes "enumerates env" "distinct (map fst m)"
  shows "set (rangeOver env i m) = set m"
  using rangeOver_mset[OF assms] by (rule mset_eq_setD)

lemma rangeOver_length:
  assumes "enumerates env" "distinct (map fst m)"
  shows "length (rangeOver env i m) = length m"
  using rangeOver_mset[OF assms] by (rule mset_eq_length)

subsection \<open>The seed\<close>

lemma seed_fold:
  assumes "distinct (map fst m0)"
    and "\<forall>n i. map_of m0 n = Some i \<longrightarrow> P n i"
    and "\<forall>crd \<in> set goal. P (Name crd) (f crd)"
  shows "distinct (map fst (fold (\<lambda>crd m. AList.update (Name crd) (f crd) m) goal m0)) \<and>
         fst ` set (fold (\<lambda>crd m. AList.update (Name crd) (f crd) m) goal m0) =
           fst ` set m0 \<union> Name ` set goal \<and>
         (\<forall>n i. map_of (fold (\<lambda>crd m. AList.update (Name crd) (f crd) m) goal m0) n = Some i
            \<longrightarrow> P n i)"
  using assms
proof (induction goal arbitrary: m0)
  case Nil
  then show ?case by simp
next
  case (Cons g goal)
  let ?m1 = "AList.update (Name g) (f g) m0"
  have d: "distinct (map fst ?m1)"
    using Cons.prems(1) by (simp add: distinct_update)
  have p: "\<forall>n i. map_of ?m1 n = Some i \<longrightarrow> P n i"
    using Cons.prems(2,3) by (simp add: update_conv')
  have r: "\<forall>crd \<in> set goal. P (Name crd) (f crd)" using Cons.prems(3) by simp
  have k: "fst ` set ?m1 \<union> Name ` set goal = fst ` set m0 \<union> Name ` set (g # goal)"
    by (simp add: keys_update)
  have u: "fold (\<lambda>crd m. AList.update (Name crd) (f crd) m) (g # goal) m0 =
           fold (\<lambda>crd m. AList.update (Name crd) (f crd) m) goal ?m1"
    by simp
  show ?case
    unfolding u using Cons.IH[OF d p r] k by simp
qed

lemma seedInstructions_props:
  "distinct (map fst (seedInstructions env goal))"
  "fst ` set (seedInstructions env goal) = Name ` set goal"
  "map_of (seedInstructions env goal) n = Some i \<Longrightarrow> seeded env goal n i"
proof -
  let ?f = "\<lambda>crd. \<lparr>CRD = crd, FilterResult = Excluded,
               FilterReason = NotMatchedNotExisting (makeMatchString env crd),
               DiffResult = NoDifference\<rparr>"
  have a: "distinct (map fst ([] :: (string \<times> CRDInstallationInstruction) list))" by simp
  have b: "\<forall>n i. map_of ([] :: (string \<times> CRDInstallationInstruction) list) n = Some i \<longrightarrow> seeded env goal n i"
    by simp
  have c: "\<forall>crd \<in> set goal. seeded env goal (Name crd) (?f crd)"
    by (simp add: seeded_def)
  have s: "seedInstructions env goal = fold (\<lambda>crd m. AList.update (Name crd) (?f crd) m) goal []"
    by (simp add: seedInstructions_def)
  note R = seed_fold[OF a b c, folded s]
  show "distinct (map fst (seedInstructions env goal))" using R by blast
  show "fst ` set (seedInstructions env goal) = Name ` set goal" using R by simp
  show "map_of (seedInstructions env goal) n = Some i \<Longrightarrow> seeded env goal n i" using R by blast
qed

subsection \<open>The pass over the existing CRDs\<close>

lemma update_present_keys:
  "map_of m k = Some v \<Longrightarrow> map fst (AList.update k w m) = map fst m"
proof -
  assume "map_of m k = Some v"
  then have "k \<in> set (map fst m)" by (metis map_of_eq_None_iff image_set option.distinct(1))
  then show ?thesis by (simp add: update_keys)
qed

lemma filterCRDsByExisting_keys:
  "map fst (filterCRDsByExisting env existing m) = map fst m"
  unfolding filterCRDsByExisting_def
proof (induction existing arbitrary: m)
  case Nil
  then show ?case by simp
next
  case (Cons crd existing)
  show ?case
  proof (cases "map_of m (Name crd)")
    case None
    then show ?thesis using Cons.IH[of m] by simp
  next
    case (Some result)
    let ?m1 = "AList.update (Name crd)
        (result\<lparr>FilterResult := MatchedExistingCRD,
                FilterReason := AlreadyInstalled (makeMatchString env crd)\<rparr>) m"
    have "map fst ?m1 = map fst m" using Some by (rule update_present_keys)
    then show ?thesis using Cons.IH[of ?m1] Some by simp
  qed
qed

lemma filterCRDsByExisting_entry:
  assumes "map_of m n = Some i"
  shows "\<exists>i'. map_of (filterCRDsByExisting env existing m) n = Some i' \<and>
           CRD i' = CRD i \<and> DiffResult i' = DiffResult i \<and>
           FilterResult i' =
             (if n \<in> Name ` set existing then MatchedExistingCRD else FilterResult i)"
  using assms unfolding filterCRDsByExisting_def
proof (induction existing arbitrary: m i)
  case Nil
  then show ?case by simp
next
  case (Cons crd existing)
  show ?case
  proof (cases "map_of m (Name crd)")
    case None
    then have "n \<noteq> Name crd" using Cons.prems by auto
    then show ?thesis using Cons.IH[OF Cons.prems] None by simp
  next
    case (Some result)
    let ?r = "result\<lparr>FilterResult := MatchedExistingCRD,
                FilterReason := AlreadyInstalled (makeMatchString env crd)\<rparr>"
    let ?m1 = "AList.update (Name crd) ?r m"
    show ?thesis
    proof (cases "n = Name crd")
      case True
      then have "result = i" using Some Cons.prems by simp
      then have "map_of ?m1 n = Some (i\<lparr>FilterResult := MatchedExistingCRD,
                FilterReason := AlreadyInstalled (makeMatchString env crd)\<rparr>)"
        using True by (simp add: update_conv')
      from Cons.IH[OF this] show ?thesis using Some True by auto
    next
      case False
      then have "map_of ?m1 n = Some i" using Cons.prems by (simp add: update_conv')
      from Cons.IH[OF this] show ?thesis using Some False by auto
    qed
  qed
qed

subsection \<open>The pass over the patterns\<close>

lemma Matches_props:
  assumes "Matches env mt s = (r, mt')"
  shows "Matched r = (\<exists>p \<in> set (clauses mt). patternMatches env p s)"
    "clauses mt' = clauses mt"
    "set (used mt') = set (used mt) \<union> {p \<in> set (clauses mt). patternMatches env p s}"
  using assms by (auto simp: Matches_def Let_def filter_empty_conv)

lemma patternStep_inv:
  assumes ent: "map_of m0 k = Some v"
    and inv: "patternInv env cls V m0 cur"
    and cl: "clauses mt = cls"
    and step: "patternStep env (k, v) (cur, mt) = (cur', mt')"
  shows "patternInv env cls (insert k V) m0 cur'" "clauses mt' = cls"
    "set (used mt') = set (used mt) \<union>
       {p \<in> set cls. patternMatches env p (makeMatchString env (CRD v))}"
proof -
  obtain r mt1 where M: "Matches env mt (makeMatchString env (CRD v)) = (r, mt1)"
    by (cases "Matches env mt (makeMatchString env (CRD v))")
  note MP = Matches_props[OF M]
  have hit: "Matched r = selectedBy env cls (CRD v)"
    using MP(1) cl by (simp add: selectedBy_def)
  have mt': "mt' = mt1" using step M by (auto simp: patternStep_def split: if_splits)
  show "clauses mt' = cls" using mt' MP(2) cl by simp
  show "set (used mt') = set (used mt) \<union>
       {p \<in> set cls. patternMatches env p (makeMatchString env (CRD v))}"
    using mt' MP(3) cl by simp
  obtain i0 where i0: "map_of cur k = Some i0"
    using inv ent unfolding patternInv_def by blast
  let ?w = "v\<lparr>FilterResult := MatchedPattern,
              FilterReason := MatchedByPattern (makeMatchString env (CRD v)) (MatchingPattern r)\<rparr>"
  have c: "cur' = (if Matched r then AList.update k ?w cur else cur)"
    using step M by (auto simp: patternStep_def split: if_splits)
  have keys: "map fst cur' = map fst m0"
    using update_present_keys[OF i0] inv c unfolding patternInv_def by simp
  have point: "\<exists>i. map_of cur' n = Some i \<and> CRD i = CRD orig \<and> DiffResult i = DiffResult orig \<and>
           FilterResult i =
             (if n \<in> insert k V \<and> selectedBy env cls (CRD orig) then MatchedPattern
              else FilterResult orig)"
    if o: "map_of m0 n = Some orig" for n orig
  proof -
    obtain i where I: "map_of cur n = Some i" "CRD i = CRD orig" "DiffResult i = DiffResult orig"
      "FilterResult i = (if n \<in> V \<and> selectedBy env cls (CRD orig) then MatchedPattern
              else FilterResult orig)"
      using inv o unfolding patternInv_def by blast
    show ?thesis
    proof (cases "n = k")
      case True
      then have ov: "orig = v" using o ent by simp
      show ?thesis
      proof (cases "Matched r")
        case True
        then have "map_of cur' n = Some ?w" using c \<open>n = k\<close> by (simp add: update_conv')
        then show ?thesis using ov True hit \<open>n = k\<close> by simp
      next
        case False
        then have "map_of cur' n = Some i" using c I(1) by simp
        then show ?thesis using I(2,3,4) False hit ov by simp
      qed
    next
      case False
      then have "map_of cur' n = Some i" using c I(1) by (simp add: update_conv')
      then show ?thesis using I(2,3,4) False by simp
    qed
  qed
  show "patternInv env cls (insert k V) m0 cur'"
    unfolding patternInv_def using keys point by blast
qed

lemma patternFold_inv:
  assumes "\<forall>(k, v) \<in> set es. map_of m0 k = Some v"
    and "patternInv env cls V m0 cur"
    and "clauses mt = cls"
    and "fold (patternStep env) es (cur, mt) = (cur', mt')"
  shows "patternInv env cls (V \<union> fst ` set es) m0 cur' \<and> clauses mt' = cls \<and>
     set (used mt') = set (used mt) \<union>
       {p \<in> set cls. \<exists>(k, v) \<in> set es. patternMatches env p (makeMatchString env (CRD v))}"
  using assms
proof (induction es arbitrary: V cur mt)
  case Nil
  then show ?case by simp
next
  case (Cons e es)
  obtain k v where e: "e = (k, v)" by (cases e)
  obtain cur1 mt1 where s: "patternStep env (k, v) (cur, mt) = (cur1, mt1)"
    by (cases "patternStep env (k, v) (cur, mt)")
  have ent: "map_of m0 k = Some v" using Cons.prems(1) e by simp
  note S = patternStep_inv[OF ent Cons.prems(2,3) s]
  have rest: "\<forall>(k, v) \<in> set es. map_of m0 k = Some v" using Cons.prems(1) by simp
  have f: "fold (patternStep env) es (cur1, mt1) = (cur', mt')"
    using Cons.prems(4) e s by simp
  from Cons.IH[OF rest S(1) S(2) f]
  have IH: "patternInv env cls (insert k V \<union> fst ` set es) m0 cur'" "clauses mt' = cls"
    "set (used mt') = set (used mt1) \<union>
       {p \<in> set cls. \<exists>(k, v) \<in> set es. patternMatches env p (makeMatchString env (CRD v))}"
    by simp_all
  have V: "insert k V \<union> fst ` set es = V \<union> fst ` set (e # es)" using e by auto
  have U: "set (used mt') = set (used mt) \<union>
       {p \<in> set cls. \<exists>(k, v) \<in> set (e # es). patternMatches env p (makeMatchString env (CRD v))}"
    using IH(3) S(3) e by auto
  show ?case using IH(1,2) U unfolding V by simp
qed

lemma patternInv_start: "patternInv env cls {} m m"
  by (simp add: patternInv_def)

lemma in_keys_lookup: "k \<in> fst ` set m \<Longrightarrow> \<exists>v. map_of m k = Some v"
  by (cases "map_of m k") (simp_all add: map_of_eq_None_iff)

lemma rangeOver_in_set: "(k, v) \<in> set (rangeOver env i m) \<Longrightarrow> (k, v) \<in> set m"
  by (rule map_of_SomeD) (rule rangeOver_entries)

lemma rangeOver_member:
  assumes "k \<in> set (rangeOrder env i (map fst m))" "map_of m k = Some v"
  shows "(k, v) \<in> set (rangeOver env i m)"
proof -
  let ?f = "\<lambda>k. map_option (Pair k) (map_of m k)"
  have "k \<in> set (filter (\<lambda>k. ?f k \<noteq> None) (rangeOrder env i (map fst m)))"
    using assms by simp
  then have "(the \<circ> ?f) k \<in> set (rangeOver env i m)"
    unfolding rangeOver_def map_filter_def by (simp only: set_map image_eqI)
  then show ?thesis using assms(2) by simp
qed

lemma WasMatched_Some:
  assumes "p \<in> set (clauses mt)" "p \<notin> set (used mt)"
  shows "\<exists>ps. p \<in> set ps \<and> WasMatched mt = Some (PatternValidationError ps)"
proof -
  let ?ps = "filter (\<lambda>p. p \<notin> set (used mt)) (clauses mt)"
  have "p \<in> set ?ps" using assms by simp
  moreover from this have "WasMatched mt = Some (PatternValidationError ?ps)"
    by (cases ?ps) (auto simp: WasMatched_def)
  ultimately show ?thesis by blast
qed

lemma filterCRDsByPatterns_fold:
  assumes "patterns \<noteq> ''''"
    and "fold (patternStep env) (rangeOver env 0 m) (m, NewStringMatcher env patterns) = (cur', mt')"
  shows "filterCRDsByPatterns env patterns m =
           (case WasMatched mt' of Some err \<Rightarrow> Inl err | None \<Rightarrow> Inr cur')"
    "patternInv env (splitPatterns env patterns) (fst ` set (rangeOver env 0 m)) m cur'"
    "clauses mt' = splitPatterns env patterns"
    "set (used mt') = {p \<in> set (splitPatterns env patterns).
        \<exists>(k, v) \<in> set (rangeOver env 0 m). patternMatches env p (makeMatchString env (CRD v))}"
proof -
  show "filterCRDsByPatterns env patterns m =
           (case WasMatched mt' of Some err \<Rightarrow> Inl err | None \<Rightarrow> Inr cur')"
    using assms by (simp add: filterCRDsByPatterns_def)
  have ent: "\<forall>(k, v) \<in> set (rangeOver env 0 m). map_of m k = Some v"
    using rangeOver_entries by fastforce
  have cl: "clauses (NewStringMatcher env patterns) = splitPatterns env patterns"
    by (simp add: NewStringMatcher_def)
  have u: "used (NewStringMatcher env patterns) = []"
    by (simp add: NewStringMatcher_def)
  note R = patternFold_inv[OF ent patternInv_start cl assms(2)]
  show "patternInv env (splitPatterns env patterns) (fst ` set (rangeOver env 0 m)) m cur'"
    using R by simp
  show "clauses mt' = splitPatterns env patterns"
    using R by simp
  have "set (used mt') = set (used (NewStringMatcher env patterns)) \<union>
      {p \<in> set (splitPatterns env patterns).
        \<exists>(k, v) \<in> set (rangeOver env 0 m). patternMatches env p (makeMatchString env (CRD v))}"
    using R by blast
  then show "set (used mt') = {p \<in> set (splitPatterns env patterns).
        \<exists>(k, v) \<in> set (rangeOver env 0 m). patternMatches env p (makeMatchString env (CRD v))}"
    unfolding u by simp
qed

text \<open>A pattern that matches no entry of the map fails the validation.\<close>

lemma filterCRDsByPatterns_error:
  assumes ne: "patterns \<noteq> ''''"
    and p: "p \<in> set (splitPatterns env patterns)"
    and no: "\<forall>(k, v) \<in> set m. \<not> patternMatches env p (makeMatchString env (CRD v))"
  shows "\<exists>ps. p \<in> set ps \<and> filterCRDsByPatterns env patterns m = Inl (PatternValidationError ps)"
proof -
  obtain cur' mt' where f:
    "fold (patternStep env) (rangeOver env 0 m) (m, NewStringMatcher env patterns) = (cur', mt')"
    by (cases "fold (patternStep env) (rangeOver env 0 m) (m, NewStringMatcher env patterns)")
  note F = filterCRDsByPatterns_fold[OF ne f]
  have "\<And>k v. (k, v) \<in> set (rangeOver env 0 m) \<Longrightarrow> (k, v) \<in> set m"
    by (rule rangeOver_in_set)
  then have "\<And>k v. (k, v) \<in> set (rangeOver env 0 m) \<Longrightarrow>
      \<not> patternMatches env p (makeMatchString env (CRD v))"
    using no by fast
  then have "p \<notin> set (used mt')" unfolding F(4) by fast
  moreover have "p \<in> set (clauses mt')" using F(3) p by simp
  ultimately obtain ps where "p \<in> set ps" "WasMatched mt' = Some (PatternValidationError ps)"
    using WasMatched_Some by blast
  then show ?thesis using F(1) by auto
qed

text \<open>When the pattern pass succeeds, it has changed nothing but filter results, to \<open>MatchedPattern\<close>.\<close>

lemma filterCRDsByPatterns_ok:
  assumes "filterCRDsByPatterns env patterns m = Inr m'"
  shows "\<exists>V. V \<subseteq> fst ` set m \<and> (enumerates env \<longrightarrow> V = fst ` set m) \<and>
           patternInv env (if patterns = '''' then [] else splitPatterns env patterns) V m m'"
proof (cases "patterns = ''''")
  case True
  then have "m' = m" using assms by (simp add: filterCRDsByPatterns_def)
  moreover have "patternInv env [] (fst ` set m) m m"
    by (simp add: patternInv_def selectedBy_def)
  ultimately have "fst ` set m \<subseteq> fst ` set m \<and> (enumerates env \<longrightarrow> fst ` set m = fst ` set m) \<and>
      patternInv env (if patterns = '''' then [] else splitPatterns env patterns) (fst ` set m) m m'"
    using True by simp
  then show ?thesis by (rule exI)
next
  case False
  obtain cur' mt' where f:
    "fold (patternStep env) (rangeOver env 0 m) (m, NewStringMatcher env patterns) = (cur', mt')"
    by (cases "fold (patternStep env) (rangeOver env 0 m) (m, NewStringMatcher env patterns)")
  note F = filterCRDsByPatterns_fold[OF False f]
  have m': "m' = cur'" using F(1) assms by (cases "WasMatched mt'") simp_all
  let ?V = "fst ` set (rangeOver env 0 m)"
  have sub: "?V \<subseteq> fst ` set m"
  proof
    fix k assume "k \<in> ?V"
    then obtain v where "(k, v) \<in> set (rangeOver env 0 m)" by auto
    then have "(k, v) \<in> set m" by (rule rangeOver_in_set)
    then show "k \<in> fst ` set m" by (rule image_eqI[rotated]) simp
  qed
  have en: "enumerates env \<longrightarrow> ?V = fst ` set m"
  proof
    assume "enumerates env"
    then have "mset (rangeOrder env 0 (map fst m)) = mset (map fst m)"
      by (simp add: enumerates_def)
    then have ks: "set (rangeOrder env 0 (map fst m)) = set (map fst m)"
      by (rule mset_eq_setD)
    have "k \<in> ?V" if kin: "k \<in> fst ` set m" for k
    proof -
      obtain v where v: "map_of m k = Some v"
        using in_keys_lookup[OF kin] by blast
      have "k \<in> set (rangeOrder env 0 (map fst m))" using kin ks by simp
      then have "(k, v) \<in> set (rangeOver env 0 m)" using v by (rule rangeOver_member)
      then show ?thesis by (rule image_eqI[rotated]) simp
    qed
    then show "?V = fst ` set m" using sub by blast
  qed
  have "patternInv env (if patterns = '''' then [] else splitPatterns env patterns) ?V m m'"
    using F(2) m' False by simp
  with sub en have "?V \<subseteq> fst ` set m \<and> (enumerates env \<longrightarrow> ?V = fst ` set m) \<and>
      patternInv env (if patterns = '''' then [] else splitPatterns env patterns) ?V m m'"
    by simp
  then show ?thesis by (rule exI)
qed

subsection \<open>The loops that record a difference\<close>

lemma markDifferent_props:
  assumes "set names \<subseteq> fst ` set m"
  shows "\<exists>m'. markDifferent d names m = Inr m' \<and> map fst m' = map fst m \<and>
           (\<forall>n. map_of m' n =
              (if n \<in> set names then map_option (\<lambda>i. i\<lparr>DiffResult := d\<rparr>) (map_of m n)
               else map_of m n))"
  using assms
proof (induction names arbitrary: m)
  case Nil
  then show ?case by simp
next
  case (Cons name names)
  have "name \<in> fst ` set m" using Cons.prems by simp
  from in_keys_lookup[OF this] obtain result where r: "map_of m name = Some result" ..
  let ?m1 = "AList.update name (result\<lparr>DiffResult := d\<rparr>) m"
  have k1: "map fst ?m1 = map fst m" using r by (rule update_present_keys)
  then have "set (map fst ?m1) = set (map fst m)" by simp
  then have sub: "set names \<subseteq> fst ` set ?m1" using Cons.prems by simp
  from Cons.IH[OF sub] obtain m' where m':
    "markDifferent d names ?m1 = Inr m'" "map fst m' = map fst ?m1"
    "\<forall>n. map_of m' n =
       (if n \<in> set names then map_option (\<lambda>i. i\<lparr>DiffResult := d\<rparr>) (map_of ?m1 n)
        else map_of ?m1 n)"
    by (elim exE conjE)
  have A: "markDifferent d (name # names) m = Inr m'" using r m'(1) by simp
  have B: "map fst m' = map fst m" using m'(2) k1 by simp
  have C: "\<forall>n. map_of m' n =
       (if n \<in> set (name # names) then map_option (\<lambda>i. i\<lparr>DiffResult := d\<rparr>) (map_of m n)
        else map_of m n)"
  proof
    fix n
    have m1: "map_of ?m1 n = (if n = name then Some (result\<lparr>DiffResult := d\<rparr>) else map_of m n)"
      by (simp add: update_conv')
    have "map_of m' n =
       (if n \<in> set names then map_option (\<lambda>i. i\<lparr>DiffResult := d\<rparr>) (map_of ?m1 n)
        else map_of ?m1 n)"
      using m'(3) by (rule spec)
    then show "map_of m' n =
       (if n \<in> set (name # names) then map_option (\<lambda>i. i\<lparr>DiffResult := d\<rparr>) (map_of m n)
        else map_of m n)"
      unfolding m1 using r by (cases "n = name") simp_all
  qed
  show ?case
    by (rule exI[of _ m']) (intro conjI A B C)
qed

subsection \<open>The instruction map after the filter passes\<close>

lemma selectedBy_clauses:
  "selectedBy env (if patterns = '''' then [] else splitPatterns env patterns) crd =
     (patterns \<noteq> '''' \<and> selectedBy env (splitPatterns env patterns) crd)"
  by (simp add: selectedBy_def)

lemma filterPasses_keys:
  assumes "filterPasses env goal existing patterns = Inr m2"
  shows "map fst m2 = map fst (seedInstructions env goal)"
proof -
  let ?m1 = "filterCRDsByExisting env existing (seedInstructions env goal)"
  have "filterCRDsByPatterns env patterns ?m1 = Inr m2"
    using assms by (simp add: filterPasses_def)
  from filterCRDsByPatterns_ok[OF this] obtain V where
    "patternInv env (if patterns = '''' then [] else splitPatterns env patterns) V ?m1 m2"
    by (elim exE conjE)
  then have "map fst m2 = map fst ?m1" by (simp add: patternInv_def)
  then show ?thesis by (simp add: filterCRDsByExisting_keys)
qed

lemma filterPasses_distinct:
  assumes "filterPasses env goal existing patterns = Inr m2"
  shows "distinct (map fst m2)" "fst ` set m2 = Name ` set goal"
proof -
  have k: "map fst m2 = map fst (seedInstructions env goal)"
    using assms by (rule filterPasses_keys)
  show "distinct (map fst m2)" unfolding k by (rule seedInstructions_props(1))
  have "set (map fst m2) = set (map fst (seedInstructions env goal))" using k by simp
  then show "fst ` set m2 = Name ` set goal" using seedInstructions_props(2)[of env goal] by simp
qed

lemma filterPasses_entry:
  assumes fp: "filterPasses env goal existing patterns = Inr m2"
    and i: "map_of m2 n = Some i"
  shows "\<exists>b. map_of (filterCRDsByExisting env existing (seedInstructions env goal)) n = Some b \<and>
           CRD b = CRD i \<and> CRD i \<in> set goal \<and> Name (CRD i) = n \<and> DiffResult i = NoDifference \<and>
           FilterResult b = (if n \<in> Name ` set existing then MatchedExistingCRD else Excluded) \<and>
           (FilterResult i = FilterResult b \<or> FilterResult i = MatchedPattern) \<and>
           (enumerates env \<longrightarrow> FilterResult i =
              (if patterns \<noteq> '''' \<and> selectedBy env (splitPatterns env patterns) (CRD i)
               then MatchedPattern else FilterResult b))"
proof -
  let ?seed = "seedInstructions env goal"
  let ?m1 = "filterCRDsByExisting env existing ?seed"
  let ?cls = "if patterns = '''' then [] else splitPatterns env patterns"
  have pat: "filterCRDsByPatterns env patterns ?m1 = Inr m2"
    using fp by (simp add: filterPasses_def)
  from filterCRDsByPatterns_ok[OF pat] obtain V where
    V: "V \<subseteq> fst ` set ?m1" "enumerates env \<longrightarrow> V = fst ` set ?m1"
      "patternInv env ?cls V ?m1 m2"
    by (elim exE conjE)
  have "(n, i) \<in> set m2" using i by (rule map_of_SomeD)
  then have "n \<in> fst ` set m2" by (rule image_eqI[rotated]) simp
  then have nk: "n \<in> fst ` set ?seed"
    using filterPasses_distinct(2)[OF fp] seedInstructions_props(2)[of env goal] by simp
  from in_keys_lookup[OF nk] obtain s where s: "map_of ?seed n = Some s" ..
  have sd: "seeded env goal n s" using s by (rule seedInstructions_props(3))
  from filterCRDsByExisting_entry[OF s, of env existing] obtain b where
    b: "map_of ?m1 n = Some b" "CRD b = CRD s" "DiffResult b = DiffResult s"
      "FilterResult b = (if n \<in> Name ` set existing then MatchedExistingCRD else FilterResult s)"
    by (elim exE conjE)
  have "\<exists>i'. map_of m2 n = Some i' \<and> CRD i' = CRD b \<and> DiffResult i' = DiffResult b \<and>
           FilterResult i' =
             (if n \<in> V \<and> selectedBy env ?cls (CRD b) then MatchedPattern else FilterResult b)"
    using V(3) b(1) unfolding patternInv_def by (elim conjE allE[of _ n] allE[of _ b] impE)
  then have i': "CRD i = CRD b" "DiffResult i = DiffResult b"
      "FilterResult i =
         (if n \<in> V \<and> selectedBy env ?cls (CRD b) then MatchedPattern else FilterResult b)"
    using i by auto
  have nV: "enumerates env \<longrightarrow> n \<in> V"
  proof
    assume "enumerates env"
    then have "V = fst ` set ?m1" using V(2) by simp
    moreover have "(n, b) \<in> set ?m1" using b(1) by (rule map_of_SomeD)
    ultimately show "n \<in> V" by (simp add: image_iff) (rule bexI[of _ "(n, b)"], simp_all)
  qed
  have sel: "selectedBy env ?cls (CRD b) =
      (patterns \<noteq> '''' \<and> selectedBy env (splitPatterns env patterns) (CRD i))"
    using i'(1) by (simp add: selectedBy_clauses)
  have 1: "CRD b = CRD i" using i'(1) by simp
  have 2: "CRD i \<in> set goal" "Name (CRD i) = n" "DiffResult i = NoDifference"
    using sd i' b(2,3) by (simp_all add: seeded_def)
  have 3: "FilterResult b = (if n \<in> Name ` set existing then MatchedExistingCRD else Excluded)"
    using b(4) sd by (simp add: seeded_def)
  have 4: "FilterResult i = FilterResult b \<or> FilterResult i = MatchedPattern"
    using i'(3) by (simp split: if_splits)
  have 5: "enumerates env \<longrightarrow> FilterResult i =
              (if patterns \<noteq> '''' \<and> selectedBy env (splitPatterns env patterns) (CRD i)
               then MatchedPattern else FilterResult b)"
    using i'(3) nV sel by simp
  show ?thesis
    by (rule exI[of _ b]) (intro conjI b(1) 1 2 3 4 5)
qed

subsection \<open>The mismatch sets\<close>

lemma filteredGoalCRDs_names:
  assumes "\<And>k v. map_of m k = Some v \<Longrightarrow> Name (CRD v) = k"
  shows "Name ` set (filteredGoalCRDs env m) \<subseteq> fst ` set m"
proof
  fix n assume "n \<in> Name ` set (filteredGoalCRDs env m)"
  then obtain k v where kv: "(k, v) \<in> set (rangeOver env 1 m)" "n = Name (CRD v)"
    by (auto simp: filteredGoalCRDs_def)
  have l: "map_of m k = Some v" using kv(1) by (rule rangeOver_entries)
  then have "Name (CRD v) = k" by (rule assms)
  moreover have "(k, v) \<in> set m" using l by (rule map_of_SomeD)
  ultimately show "n \<in> fst ` set m" using kv(2) by (simp add: image_iff) (rule bexI[of _ "(k, v)"], simp_all)
qed

lemma mismatchSets_props:
  assumes "mismatchSets env h existing m = (ver, spec, h')"
  shows "distinct (map fst ver)" "distinct (map fst spec)"
    "fst ` set ver \<subseteq> Name ` set (filteredGoalCRDs env m)"
    "fst ` set spec \<subseteq> Name ` set (filteredGoalCRDs env m)"
proof -
  let ?f = "filteredGoalCRDs env m"
  obtain v h1 where v: "FindNonMatchingCRDs h existing ?f [readOnly VersionEqual] = (v, h1)"
    by (cases "FindNonMatchingCRDs h existing ?f [readOnly VersionEqual]")
  obtain s h2 where s: "FindNonMatchingCRDs h1 existing ?f [SpecEqual] = (s, h2)"
    by (cases "FindNonMatchingCRDs h1 existing ?f [SpecEqual]")
  have "ver = v" "spec = s" using assms v s by (simp_all add: mismatchSets_def Let_def)
  then have ver: "ver = fst (FindNonMatchingCRDs h existing ?f [readOnly VersionEqual])"
    and spec: "spec = fst (FindNonMatchingCRDs h1 existing ?f [SpecEqual])"
    using v s by simp_all
  show "distinct (map fst ver)" unfolding ver by (rule FindNonMatchingCRDs_distinct)
  show "distinct (map fst spec)" unfolding spec by (rule FindNonMatchingCRDs_distinct)
  show "fst ` set ver \<subseteq> Name ` set ?f" unfolding ver by (rule FindNonMatchingCRDs_keys_subset)
  show "fst ` set spec \<subseteq> Name ` set ?f" unfolding spec by (rule FindNonMatchingCRDs_keys_subset)
qed

lemma rangeOver_keys_subset: "set (map fst (rangeOver env i m)) \<subseteq> fst ` set m"
proof
  fix k assume "k \<in> set (map fst (rangeOver env i m))"
  then obtain v where "(k, v) \<in> set (rangeOver env i m)" by auto
  then have "(k, v) \<in> set m" by (rule rangeOver_in_set)
  then show "k \<in> fst ` set m" by (rule image_eqI[rotated]) simp
qed

lemma rangeOver_keys:
  assumes "enumerates env" "distinct (map fst m)"
  shows "set (map fst (rangeOver env i m)) = fst ` set m"
  using rangeOver_set[OF assms, of i] by simp

subsection \<open>The planner as a whole\<close>

lemma Determine_filter_error:
  assumes "filterPasses env goal existing patterns = Inl err"
  shows "DetermineCRDsToInstallOrUpgrade env h goal existing patterns = (Inl err, h)"
  using assms by (simp add: DetermineCRDsToInstallOrUpgrade_def)

text \<open>
  Once the filter passes have succeeded the planner succeeds: the names of the mismatch
  sets are names of instructions. Each instruction keeps everything but its difference.
\<close>

lemma Determine_total:
  assumes fp: "filterPasses env goal existing patterns = Inr m2"
    and ms: "mismatchSets env h existing m2 = (ver, spec, h')"
  shows "\<exists>m4. DetermineCRDsToInstallOrUpgrade env h goal existing patterns =
                (Inr (map snd (rangeOver env 4 m4)), h') \<and>
          map fst m4 = map fst m2 \<and>
          (\<forall>n. map_of m4 n =
             map_option (\<lambda>i. i\<lparr>DiffResult :=
                 (if n \<in> set (map fst (rangeOver env 3 ver)) then VersionDifferent
                  else if n \<in> set (map fst (rangeOver env 2 spec)) then SpecDifferent
                  else DiffResult i)\<rparr>) (map_of m2 n))"
proof -
  let ?ns = "map fst (rangeOver env 2 spec)"
  let ?nv = "map fst (rangeOver env 3 ver)"
  have names: "\<And>k v. map_of m2 k = Some v \<Longrightarrow> Name (CRD v) = k"
    using filterPasses_entry[OF fp] by blast
  have sub: "Name ` set (filteredGoalCRDs env m2) \<subseteq> fst ` set m2"
    using names by (rule filteredGoalCRDs_names)
  note M = mismatchSets_props[OF ms]
  have s2: "set ?ns \<subseteq> fst ` set m2"
    using rangeOver_keys_subset[of env 2 spec] M(4) sub by (rule order_trans[OF _ order_trans])
  from markDifferent_props[OF s2, of SpecDifferent] obtain m3 where m3:
    "markDifferent SpecDifferent ?ns m2 = Inr m3" "map fst m3 = map fst m2"
    "\<forall>n. map_of m3 n =
       (if n \<in> set ?ns then map_option (\<lambda>i. i\<lparr>DiffResult := SpecDifferent\<rparr>) (map_of m2 n)
        else map_of m2 n)"
    by (elim exE conjE)
  have "set (map fst m3) = set (map fst m2)" using m3(2) by simp
  then have k3: "fst ` set m3 = fst ` set m2" by simp
  have v2: "set ?nv \<subseteq> fst ` set m3"
    unfolding k3
    using rangeOver_keys_subset[of env 3 ver] M(3) sub by (rule order_trans[OF _ order_trans])
  from markDifferent_props[OF v2, of VersionDifferent] obtain m4 where m4:
    "markDifferent VersionDifferent ?nv m3 = Inr m4" "map fst m4 = map fst m3"
    "\<forall>n. map_of m4 n =
       (if n \<in> set ?nv then map_option (\<lambda>i. i\<lparr>DiffResult := VersionDifferent\<rparr>) (map_of m3 n)
        else map_of m3 n)"
    by (elim exE conjE)
  have A: "DetermineCRDsToInstallOrUpgrade env h goal existing patterns =
                (Inr (map snd (rangeOver env 4 m4)), h')"
    using fp ms m3(1) m4(1) by (simp add: DetermineCRDsToInstallOrUpgrade_def)
  have B: "map fst m4 = map fst m2" using m4(2) m3(2) by simp
  have C: "\<forall>n. map_of m4 n =
             map_option (\<lambda>i. i\<lparr>DiffResult :=
                 (if n \<in> set ?nv then VersionDifferent
                  else if n \<in> set ?ns then SpecDifferent
                  else DiffResult i)\<rparr>) (map_of m2 n)"
  proof
    fix n
    have a: "map_of m4 n =
       (if n \<in> set ?nv then map_option (\<lambda>i. i\<lparr>DiffResult := VersionDifferent\<rparr>) (map_of m3 n)
        else map_of m3 n)"
      using m4(3) by (rule spec)
    have b: "map_of m3 n =
       (if n \<in> set ?ns then map_option (\<lambda>i. i\<lparr>DiffResult := SpecDifferent\<rparr>) (map_of m2 n)
        else map_of m2 n)"
      using m3(3) by (rule spec)
    show "map_of m4 n =
             map_option (\<lambda>i. i\<lparr>DiffResult :=
                 (if n \<in> set ?nv then VersionDifferent
                  else if n \<in> set ?ns then SpecDifferent
                  else DiffResult i)\<rparr>) (map_of m2 n)"
      unfolding a b by (cases "map_of m2 n") simp_all
  qed
  show ?thesis
    by (rule exI[of _ m4]) (intro conjI A B C)
qed

text \<open>The only error of the planner is the pattern validation error of the pattern pass.\<close>

lemma Determine_cases:
  "(\<exists>err. filterPasses env goal existing patterns = Inl err \<and>
      DetermineCRDsToInstallOrUpgrade env h goal existing patterns = (Inl err, h)) \<or>
   (\<exists>m2 results h'. filterPasses env goal existing patterns = Inr m2 \<and>
      DetermineCRDsToInstallOrUpgrade env h goal existing patterns = (Inr results, h'))"
proof (cases "filterPasses env goal existing patterns")
  case (Inl err)
  then show ?thesis using Determine_filter_error by blast
next
  case (Inr m2)
  obtain ver spec h' where ms: "mismatchSets env h existing m2 = (ver, spec, h')"
    by (cases "mismatchSets env h existing m2") auto
  from Determine_total[OF Inr ms] obtain m4 where
    "DetermineCRDsToInstallOrUpgrade env h goal existing patterns =
                (Inr (map snd (rangeOver env 4 m4)), h')"
    by (elim exE conjE)
  then show ?thesis using Inr by blast
qed

text \<open>What a successful plan returns, instruction by instruction.\<close>

lemma Determine_result:
  assumes en: "enumerates env"
    and fp: "filterPasses env goal existing patterns = Inr m2"
    and ms: "mismatchSets env h existing m2 = (ver, spec, h')"
  shows "\<exists>results. DetermineCRDsToInstallOrUpgrade env h goal existing patterns = (Inr results, h') \<and>
          mset (map (\<lambda>i. Name (CRD i)) results) = mset (map fst m2) \<and>
          (\<forall>i \<in> set results. \<exists>i2. map_of m2 (Name (CRD i)) = Some i2 \<and>
             i = i2\<lparr>DiffResult :=
                 (if Name (CRD i) \<in> fst ` set ver then VersionDifferent
                  else if Name (CRD i) \<in> fst ` set spec then SpecDifferent
                  else NoDifference)\<rparr>)"
proof -
  note M = mismatchSets_props[OF ms]
  have nv: "set (map fst (rangeOver env 3 ver)) = fst ` set ver"
    using en M(1) by (rule rangeOver_keys)
  have ns: "set (map fst (rangeOver env 2 spec)) = fst ` set spec"
    using en M(2) by (rule rangeOver_keys)
  from Determine_total[OF fp ms] obtain m4 where m4:
    "DetermineCRDsToInstallOrUpgrade env h goal existing patterns =
                (Inr (map snd (rangeOver env 4 m4)), h')"
    "map fst m4 = map fst m2"
    "\<forall>n. map_of m4 n =
             map_option (\<lambda>i. i\<lparr>DiffResult :=
                 (if n \<in> set (map fst (rangeOver env 3 ver)) then VersionDifferent
                  else if n \<in> set (map fst (rangeOver env 2 spec)) then SpecDifferent
                  else DiffResult i)\<rparr>) (map_of m2 n)"
    by (elim exE conjE)
  let ?results = "map snd (rangeOver env 4 m4)"
  have d4: "distinct (map fst m4)" unfolding m4(2) using fp by (rule filterPasses_distinct(1))
  have entry: "\<exists>i2. map_of m2 k = Some i2 \<and> Name (CRD i) = k \<and>
             i = i2\<lparr>DiffResult :=
                 (if k \<in> fst ` set ver then VersionDifferent
                  else if k \<in> fst ` set spec then SpecDifferent
                  else NoDifference)\<rparr>"
    if "(k, i) \<in> set m4" for k i
  proof -
    have l: "map_of m4 k = Some i" using d4 that by (rule map_of_is_SomeI)
    have e: "map_of m4 k =
             map_option (\<lambda>i. i\<lparr>DiffResult :=
                 (if k \<in> fst ` set ver then VersionDifferent
                  else if k \<in> fst ` set spec then SpecDifferent
                  else DiffResult i)\<rparr>) (map_of m2 k)"
      using m4(3) unfolding nv ns by (rule spec)
    then obtain i2 where i2: "map_of m2 k = Some i2"
      using l by (cases "map_of m2 k") simp_all
    from filterPasses_entry[OF fp i2] have p: "Name (CRD i2) = k" "DiffResult i2 = NoDifference"
      by blast+
    have "i = i2\<lparr>DiffResult :=
                 (if k \<in> fst ` set ver then VersionDifferent
                  else if k \<in> fst ` set spec then SpecDifferent
                  else NoDifference)\<rparr>"
      using e l i2 p(2) by simp
    moreover from this have "Name (CRD i) = k" using p(1) by simp
    ultimately show ?thesis using i2 by blast
  qed
  have same: "map (\<lambda>e. Name (CRD (snd e))) m4 = map fst m4"
    using entry by (intro map_cong refl) force
  have "mset (map (\<lambda>i. Name (CRD i)) ?results) =
        image_mset (\<lambda>e. Name (CRD (snd e))) (mset (rangeOver env 4 m4))"
    by (simp add: comp_def multiset.map_comp)
  also have "\<dots> = image_mset (\<lambda>e. Name (CRD (snd e))) (mset m4)"
    by (simp only: rangeOver_mset[OF en d4])
  also have "\<dots> = mset (map (\<lambda>e. Name (CRD (snd e))) m4)" by simp
  also have "\<dots> = mset (map fst m2)" by (simp only: same m4(2))
  finally have B: "mset (map (\<lambda>i. Name (CRD i)) ?results) = mset (map fst m2)" .
  have C: "\<forall>i \<in> set ?results. \<exists>i2. map_of m2 (Name (CRD i)) = Some i2 \<and>
             i = i2\<lparr>DiffResult :=
                 (if Name (CRD i) \<in> fst ` set ver then VersionDifferent
                  else if Name (CRD i) \<in> fst ` set spec then SpecDifferent
                  else NoDifference)\<rparr>"
  proof
    fix i assume "i \<in> set ?results"
    then obtain k where "(k, i) \<in> set (rangeOver env 4 m4)" by auto
    then have "(k, i) \<in> set m4" by (rule rangeOver_in_set)
    from entry[OF this] obtain i2 where i2: "map_of m2 k = Some i2" "Name (CRD i) = k"
      "i = i2\<lparr>DiffResult :=
                 (if k \<in> fst ` set ver then VersionDifferent
                  else if k \<in> fst ` set spec then SpecDifferent
                  else NoDifference)\<rparr>"
      by (elim exE conjE)
    show "\<exists>i2. map_of m2 (Name (CRD i)) = Some i2 \<and>
             i = i2\<lparr>DiffResult :=
                 (if Name (CRD i) \<in> fst ` set ver then VersionDifferent
                  else if Name (CRD i) \<in> fst ` set spec then SpecDifferent
                  else NoDifference)\<rparr>"
      unfolding i2(2) by (rule exI[of _ i2]) (intro conjI i2(1) i2(3))
  qed
  show ?thesis
    by (rule exI[of _ ?results]) (intro conjI m4(1) B C)
qed

subsection \<open>The candidates of the pattern pass\<close>

lemma update_same_CRD:
  "map_of m k = Some v \<Longrightarrow> CRD w = CRD v \<Longrightarrow>
   map (\<lambda>e. CRD (snd e)) (AList.update k w m) = map (\<lambda>e. CRD (snd e)) m"
  by (induction m) (auto split: if_splits)

lemma filterCRDsByExisting_CRDs:
  "map (\<lambda>e. CRD (snd e)) (filterCRDsByExisting env existing m) = map (\<lambda>e. CRD (snd e)) m"
  unfolding filterCRDsByExisting_def
proof (induction existing arbitrary: m)
  case Nil
  then show ?case by simp
next
  case (Cons crd existing)
  show ?case
  proof (cases "map_of m (Name crd)")
    case None
    then show ?thesis using Cons.IH[of m] by simp
  next
    case (Some result)
    let ?m1 = "AList.update (Name crd)
        (result\<lparr>FilterResult := MatchedExistingCRD,
                FilterReason := AlreadyInstalled (makeMatchString env crd)\<rparr>) m"
    have "map (\<lambda>e. CRD (snd e)) ?m1 = map (\<lambda>e. CRD (snd e)) m"
      using Some by (rule update_same_CRD) simp
    then show ?thesis using Cons.IH[of ?m1] Some by simp
  qed
qed

subsection \<open>A successful plan\<close>

lemma Determine_success:
  assumes en: "enumerates env"
    and ok: "fst (DetermineCRDsToInstallOrUpgrade env h goal existing patterns) = Inr results"
  obtains m2 ver spec h' where
    "filterPasses env goal existing patterns = Inr m2"
    "mismatchSets env h existing m2 = (ver, spec, h')"
    "mset (map (\<lambda>i. Name (CRD i)) results) = mset (map fst m2)"
    "\<forall>i \<in> set results. \<exists>i2. map_of m2 (Name (CRD i)) = Some i2 \<and>
             i = i2\<lparr>DiffResult :=
                 (if Name (CRD i) \<in> fst ` set ver then VersionDifferent
                  else if Name (CRD i) \<in> fst ` set spec then SpecDifferent
                  else NoDifference)\<rparr>"
proof -
  have "\<exists>m2. filterPasses env goal existing patterns = Inr m2"
  proof (cases "filterPasses env goal existing patterns")
    case (Inl err)
    then have "fst (DetermineCRDsToInstallOrUpgrade env h goal existing patterns) = Inl err"
      by (simp add: Determine_filter_error)
    then show ?thesis using ok by simp
  next
    case (Inr m2)
    then show ?thesis by (rule exI)
  qed
  then obtain m2 where fp: "filterPasses env goal existing patterns = Inr m2" ..
  obtain ver spec h' where ms: "mismatchSets env h existing m2 = (ver, spec, h')"
    by (rule prod_cases3)
  from Determine_result[OF en fp ms] obtain r where r:
    "DetermineCRDsToInstallOrUpgrade env h goal existing patterns = (Inr r, h')"
    "mset (map (\<lambda>i. Name (CRD i)) r) = mset (map fst m2)"
    "\<forall>i \<in> set r. \<exists>i2. map_of m2 (Name (CRD i)) = Some i2 \<and>
             i = i2\<lparr>DiffResult :=
                 (if Name (CRD i) \<in> fst ` set ver then VersionDifferent
                  else if Name (CRD i) \<in> fst ` set spec then SpecDifferent
                  else NoDifference)\<rparr>"
    by (elim exE conjE)
  have "r = results" using r(1) ok by simp
  then show thesis using that[OF fp ms] r(2,3) by simp
qed

subsection \<open>The example plan\<close>

lemma enumerates_exampleEnv: "enumerates exampleEnv"
  by (simp add: enumerates_def exampleEnv_def)

lemma example_plan:
  "fst (DetermineCRDsToInstallOrUpgrade exampleEnv exampleHeap exampleGoals exampleExistings
         ''foo-*'') = Inr examplePlan"
  by code_simp

lemma example_filterPasses:
  "filterPasses exampleEnv exampleGoals exampleExistings ''foo-*'' = Inr exampleFiltered"
  by code_simp

lemma example_mismatchSets:
  "map fst (fst (mismatchSets exampleEnv exampleHeap exampleExistings exampleFiltered)) =
     [''bars.example.com'', ''foos.example.com'']"
  "map fst (fst (snd (mismatchSets exampleEnv exampleHeap exampleExistings exampleFiltered))) =
     [''bazs.example.com'', ''bars.example.com'']"
  by code_simp+

lemma candidates_entries:
  assumes "(k, v) \<in> set (filterCRDsByExisting env existing (seedInstructions env goal))"
  shows "CRD v \<in> set (candidates env goal)"
proof -
  let ?m1 = "filterCRDsByExisting env existing (seedInstructions env goal)"
  have "CRD (snd (k, v)) \<in> (\<lambda>e. CRD (snd e)) ` set ?m1"
    using assms by (rule imageI)
  then have "CRD v \<in> set (map (\<lambda>e. CRD (snd e)) ?m1)"
    by (simp only: set_map snd_conv)
  then show ?thesis
    by (simp only: filterCRDsByExisting_CRDs candidates_def)
qed

section \<open>Fixing namespace references: lemmas\<close>

lemma Split_nonempty: "Split s sep \<noteq> []"
  by (induction s) (auto split: list.splits)

lemma Split_length: "length (Split s sep) = Suc (count_list s sep)"
  by (induction s) (auto split: list.splits simp: Split_nonempty)

lemma Split_no_separator: "count_list s sep = 0 \<Longrightarrow> Split s sep = [s]"
  by (induction s) (auto split: list.splits if_splits)

lemma Split_second:
  "count_list s (CHR ''/'') = 1 \<Longrightarrow> Split s (CHR ''/'') ! 1 = afterSeparator s"
proof (induction s)
  case Nil
  then show ?case by simp
next
  case (Cons c cs)
  show ?case
  proof (cases "c = CHR ''/''")
    case True
    then have "count_list cs (CHR ''/'') = 0" using Cons.prems by simp
    then have "Split cs (CHR ''/'') = [cs]" by (rule Split_no_separator)
    then show ?thesis using True by (simp add: afterSeparator_def)
  next
    case False
    then have c: "count_list cs (CHR ''/'') = 1" using Cons.prems by simp
    obtain p ps where sp: "Split cs (CHR ''/'') = p # ps"
      using Split_nonempty[of cs "CHR ''/''"] by (cases "Split cs (CHR ''/'')") simp_all
    have "Split (c # cs) (CHR ''/'') ! 1 = Split cs (CHR ''/'') ! 1"
      using False sp by simp
    also have "\<dots> = afterSeparator cs" using c by (rule Cons.IH)
    also have "\<dots> = afterSeparator (c # cs)" using False by (simp add: afterSeparator_def)
    finally show ?thesis .
  qed
qed

text \<open>The two blocks of \<open>fixCRDNamespace\<close>, seen on the dereferenced CRD.\<close>

lemma assignServiceNamespace_view:
  "view (assignServiceNamespace h a namespace) a = setServiceNamespace namespace (view h a)"
  by (auto simp: assignServiceNamespace_def view_defs setServiceNamespace_def
      split: option.splits)

lemma assignServiceNamespace_frame:
  "within N h a \<Longrightarrow> agree_below N h (assignServiceNamespace h a namespace)"
  by (auto simp: assignServiceNamespace_def agree_below_def within_def cells_defs
      split: option.splits)

lemma view_Annotations_update:
  "view h (a\<lparr>Annotations := x\<rparr>) = (view h a)\<lparr>Annotations := x\<rparr>"
  by (simp add: view_def)

lemma assignInjectCAFrom_view:
  "view h (assignInjectCAFrom a namespace) = rewriteInjectCAFrom namespace (view h a)"
proof (cases "Annotations a")
  case None
  then show ?thesis
    by (simp add: assignInjectCAFrom_def rewriteInjectCAFrom_def view_def)
next
  case (Some annotations)
  show ?thesis
  proof (cases "map_of annotations certMgrInjectCAFromAnnotation")
    case None
    then show ?thesis using Some
      by (cases annotations)
        (simp_all add: assignInjectCAFrom_def rewriteInjectCAFrom_def view_def index_def)
  next
    case (Some injectCAFrom)
    then have ne: "annotations \<noteq> []" by auto
    show ?thesis
    proof (cases "count_list injectCAFrom (CHR ''/'') = 1")
      case True
      then show ?thesis using Some \<open>Annotations a = Some annotations\<close> ne
        by (simp add: assignInjectCAFrom_def rewriteInjectCAFrom_def index_def Split_length
            Split_second[unfolded One_nat_def] view_Annotations_update) (simp add: view_def)
    next
      case False
      then show ?thesis using Some \<open>Annotations a = Some annotations\<close> ne
        by (simp add: assignInjectCAFrom_def rewriteInjectCAFrom_def index_def Split_length)
          (simp add: view_def)
    qed
  qed
qed

lemma rewriteInjectCAFrom_setServiceNamespace:
  "rewriteInjectCAFrom ns (setServiceNamespace ns' v) =
   setServiceNamespace ns' (rewriteInjectCAFrom ns v)"
  by (simp add: rewriteInjectCAFrom_def setServiceNamespace_def split: option.splits)


section \<open>The apply engine: lemmas\<close>








section \<open>Properties of VersionEqual\<close>

lemma carriesVersion_nil: "Labels a = None \<Longrightarrow> \<not> carriesVersion a"
  by (simp add: carriesVersion_def index_def)

text \<open>
  C4, as the specification states it: true when neither CRD carries the version label.
  It fails when exactly one of the label maps is nil: the zero CRD has no label map, a
  CRD with an empty label map carries no version label either, and \<open>VersionEqual\<close>
  answers false.
\<close>

theorem VersionEqual_neither_counterexample:
  "\<not> carriesVersion (zeroCRD :: CRD) \<and>
   \<not> carriesVersion ((zeroCRD :: CRD)\<lparr>Labels := Some []\<rparr>) \<and>
   \<not> VersionEqual (zeroCRD :: CRD) (zeroCRD\<lparr>Labels := Some []\<rparr>)"
  by (simp add: carriesVersion_def VersionEqual_def index_def zeroCRD_def)

text \<open>
  C4, amended: \<open>VersionEqual\<close> is true when both label maps are nil and false when exactly
  one is nil. When both are non-nil it is true if neither carries the version label,
  equality of the two values if both carry it, and false if exactly one carries it with
  a non-empty value.
\<close>

theorem VersionEqual_cases:
  "(Labels a = None \<and> Labels b = None \<longrightarrow> VersionEqual a b) \<and>
   ((Labels a = None) \<noteq> (Labels b = None) \<longrightarrow> \<not> VersionEqual a b) \<and>
   (Labels a \<noteq> None \<and> Labels b \<noteq> None \<longrightarrow>
      (\<not> carriesVersion a \<and> \<not> carriesVersion b \<longrightarrow> VersionEqual a b) \<and>
      (carriesVersion a \<and> carriesVersion b \<longrightarrow>
         VersionEqual a b = (versionOf a = versionOf b)) \<and>
      (carriesVersion a \<and> \<not> carriesVersion b \<and> versionOf a \<noteq> '''' \<longrightarrow> \<not> VersionEqual a b) \<and>
      (\<not> carriesVersion a \<and> carriesVersion b \<and> versionOf b \<noteq> '''' \<longrightarrow> \<not> VersionEqual a b))"
  by (auto simp: VersionEqual_def carriesVersion_def versionOf_def index_def
      split: option.splits prod.splits)

theorem VersionEqual_cases_witness:
  "VersionEqual (zeroCRD :: CRD) zeroCRD \<and>
   \<not> VersionEqual exampleGoal (zeroCRD :: CRD) \<and>
   VersionEqual (exampleGoal\<lparr>Labels := Some []\<rparr>) (exampleExisting\<lparr>Labels := Some [(''app'', ''aso'')]\<rparr>) \<and>
   \<not> VersionEqual exampleGoal exampleExisting \<and>
   VersionEqual exampleGoal (exampleExisting\<lparr>Labels := Labels exampleGoal\<rparr>) \<and>
   \<not> VersionEqual exampleGoal (exampleExisting\<lparr>Labels := Some []\<rparr>) \<and>
   \<not> VersionEqual (exampleGoal\<lparr>Labels := Some []\<rparr>) exampleExisting"
  using VersionEqual_cases[of "zeroCRD :: CRD" zeroCRD]
    VersionEqual_cases[of exampleGoal "zeroCRD :: CRD"]
    VersionEqual_cases[of "exampleGoal\<lparr>Labels := Some []\<rparr>" "exampleExisting\<lparr>Labels := Some [(''app'', ''aso'')]\<rparr>"]
    VersionEqual_cases[of exampleGoal exampleExisting]
    VersionEqual_cases[of exampleGoal "exampleExisting\<lparr>Labels := Labels exampleGoal\<rparr>"]
    VersionEqual_cases[of exampleGoal "exampleExisting\<lparr>Labels := Some []\<rparr>"]
    VersionEqual_cases[of "exampleGoal\<lparr>Labels := Some []\<rparr>" exampleExisting]
  by (simp add: carriesVersion_def versionOf_def index_def ServiceOperatorVersionLabel_def
      zeroCRD_def exampleGoal_def exampleExisting_def)

section \<open>C1: what FindNonMatchingCRDs returns\<close>

text \<open>
  C1: \<open>FindNonMatchingCRDs\<close> is to return the goal entries that fail any comparator,
  the complement of what \<open>FindMatchingCRDs\<close> returns; its comment says so (the CRDs in
  goal that are not in existing, or are in existing but mismatch). The code inverts
  every comparator and calls \<open>FindMatchingCRDs\<close>, which asks all of them to hold, so it
  returns the entries that fail every comparator. The two agree for one comparator, which
  is how manager.go calls it, and differ otherwise. The example goal CRD fails
  \<open>VersionEqual\<close> against the existing CRD of its name and passes \<open>SpecEqual\<close>: with
  both comparators it is returned neither by \<open>FindNonMatchingCRDs\<close> nor by
  \<open>FindMatchingCRDs\<close>. With no comparator it is returned by both.
\<close>

theorem FindNonMatchingCRDs_not_complement:
  "\<not> VersionEqual (view exampleHeap (existingFor [exampleExisting] exampleGoal))
       (view exampleHeap exampleGoal) \<and>
   fst (SpecEqual exampleHeap (existingFor [exampleExisting] exampleGoal) exampleGoal) \<and>
   fst (FindNonMatchingCRDs exampleHeap [exampleExisting] [exampleGoal]
          [readOnly VersionEqual, SpecEqual]) = [] \<and>
   fst (FindMatchingCRDs exampleHeap [exampleExisting] [exampleGoal]
          [readOnly VersionEqual, SpecEqual]) = [] \<and>
   map fst (fst (FindNonMatchingCRDs exampleHeap [exampleExisting] [exampleGoal] [])) =
     [Name exampleGoal] \<and>
   map fst (fst (FindMatchingCRDs exampleHeap [exampleExisting] [exampleGoal] [])) =
     [Name exampleGoal]"
proof -
  have 1: "fst (FindNonMatchingCRDs exampleHeap [exampleExisting] [exampleGoal]
          [readOnly VersionEqual, SpecEqual]) = []"
    by code_simp
  have 2: "fst (FindMatchingCRDs exampleHeap [exampleExisting] [exampleGoal]
          [readOnly VersionEqual, SpecEqual]) = []"
    by code_simp
  have 3: "map fst (fst (FindNonMatchingCRDs exampleHeap [exampleExisting] [exampleGoal] [])) =
      [Name exampleGoal]"
    by code_simp
  have 4: "map fst (fst (FindMatchingCRDs exampleHeap [exampleExisting] [exampleGoal] [])) =
      [Name exampleGoal]"
    by code_simp
  show ?thesis
    using example_VersionEqual example_SpecEqual 1 2 3 4 by (simp add: example_existingFor)
qed

section \<open>C2: the recheck finds nothing to apply\<close>




section \<open>C3: the pattern pass runs after the existing-CRD pass\<close>

text \<open>
  C3: in \<open>DetermineCRDsToInstallOrUpgrade\<close> the pattern pass works on the instruction
  map the existing-CRD pass has left. For every instruction of a successful plan, with
  \<open>b\<close> the instruction of its name after the existing-CRD pass (\<open>MatchedExistingCRD\<close>
  if a CRD of that name exists, \<open>Excluded\<close> otherwise): the filter result is
  \<open>MatchedPattern\<close> if the pattern specification is non-empty and one of its patterns
  matches the CRD, and that of \<open>b\<close> otherwise. So the pattern pass upgrades
  \<open>Excluded\<close> to \<open>MatchedPattern\<close>, and an instruction classified
  \<open>MatchedExistingCRD\<close> is never taken back to \<open>Excluded\<close>.
\<close>

theorem pattern_pass_after_existing_pass:
  assumes en: "enumerates env"
    and ok: "fst (DetermineCRDsToInstallOrUpgrade env h goal existing patterns) = Inr results"
    and i: "i \<in> set results"
  shows "\<exists>b. map_of (filterCRDsByExisting env existing (seedInstructions env goal))
                (Name (CRD i)) = Some b \<and>
           CRD b = CRD i \<and>
           FilterResult b =
             (if Name (CRD i) \<in> Name ` set existing then MatchedExistingCRD else Excluded) \<and>
           FilterResult i =
             (if patterns \<noteq> '''' \<and> selectedBy env (splitPatterns env patterns) (CRD i)
              then MatchedPattern else FilterResult b) \<and>
           (FilterResult b = MatchedExistingCRD \<longrightarrow> FilterResult i \<noteq> Excluded)"
proof -
  obtain m2 ver spec h' where
    fp: "filterPasses env goal existing patterns = Inr m2"
    and "mismatchSets env h existing m2 = (ver, spec, h')"
    and "mset (map (\<lambda>i. Name (CRD i)) results) = mset (map fst m2)"
    and all: "\<forall>i \<in> set results. \<exists>i2. map_of m2 (Name (CRD i)) = Some i2 \<and>
             i = i2\<lparr>DiffResult :=
                 (if Name (CRD i) \<in> fst ` set ver then VersionDifferent
                  else if Name (CRD i) \<in> fst ` set spec then SpecDifferent
                  else NoDifference)\<rparr>"
    by (rule Determine_success[OF en ok])
  from bspec[OF all i] obtain i2 where i2: "map_of m2 (Name (CRD i)) = Some i2"
    and eq: "i = i2\<lparr>DiffResult :=
                 (if Name (CRD i) \<in> fst ` set ver then VersionDifferent
                  else if Name (CRD i) \<in> fst ` set spec then SpecDifferent
                  else NoDifference)\<rparr>"
    by (elim exE conjE)
  have same: "CRD i2 = CRD i" "FilterResult i2 = FilterResult i"
    by (subst eq, simp)+
  from filterPasses_entry[OF fp i2] obtain b where b:
    "map_of (filterCRDsByExisting env existing (seedInstructions env goal)) (Name (CRD i)) = Some b"
    "CRD b = CRD i2"
    "FilterResult b = (if Name (CRD i) \<in> Name ` set existing then MatchedExistingCRD else Excluded)"
    "enumerates env \<longrightarrow> FilterResult i2 =
              (if patterns \<noteq> '''' \<and> selectedBy env (splitPatterns env patterns) (CRD i2)
               then MatchedPattern else FilterResult b)"
    by (elim exE conjE)
  have 1: "CRD b = CRD i" using b(2) same(1) by simp
  have 2: "FilterResult i =
             (if patterns \<noteq> '''' \<and> selectedBy env (splitPatterns env patterns) (CRD i)
              then MatchedPattern else FilterResult b)"
    using b(4) en same by simp
  have 3: "FilterResult b = MatchedExistingCRD \<longrightarrow> FilterResult i \<noteq> Excluded"
    using 2 by simp
  show ?thesis
    by (rule exI[of _ b]) (intro conjI b(1) 1 b(3) 2 3)
qed

theorem pattern_pass_after_existing_pass_witness:
  "enumerates exampleEnv \<and>
   fst (DetermineCRDsToInstallOrUpgrade exampleEnv exampleHeap exampleGoals exampleExistings
         ''foo-*'') = Inr examplePlan \<and>
   map (\<lambda>i. map_option FilterResult
          (map_of (filterCRDsByExisting exampleEnv exampleExistings
                     (seedInstructions exampleEnv exampleGoals)) (Name (CRD i)))) examplePlan =
     [Some MatchedExistingCRD, Some MatchedExistingCRD, Some MatchedExistingCRD, Some Excluded] \<and>
   map FilterResult examplePlan =
     [MatchedExistingCRD, MatchedExistingCRD, MatchedExistingCRD, MatchedPattern]"
proof -
  have mem: "examplePlan ! 3 \<in> set examplePlan"
    by (simp add: examplePlan_def)
  have before: "map (\<lambda>i. map_option FilterResult
          (map_of (filterCRDsByExisting exampleEnv exampleExistings
                     (seedInstructions exampleEnv exampleGoals)) (Name (CRD i)))) examplePlan =
     [Some MatchedExistingCRD, Some MatchedExistingCRD, Some MatchedExistingCRD, Some Excluded]"
    by code_simp
  have after: "map FilterResult examplePlan =
     [MatchedExistingCRD, MatchedExistingCRD, MatchedExistingCRD, MatchedPattern]"
    by (simp add: examplePlan_def)
  show ?thesis
    using pattern_pass_after_existing_pass[OF enumerates_exampleEnv example_plan mem]
      enumerates_exampleEnv example_plan before after
    by simp
qed

section \<open>C5: the difference recorded for an instruction\<close>

text \<open>
  C5: within one run of \<open>DetermineCRDsToInstallOrUpgrade\<close> every instruction is
  seeded with \<open>NoDifference\<close>, and the result is only raised from there: the loop over
  the spec mismatches runs first, the loop over the version mismatches second, so an
  instruction of the plan has \<open>VersionDifferent\<close> if its name is in the version mismatch
  set (also when it is in the spec mismatch set as well), \<open>SpecDifferent\<close> if it is in
  the spec mismatch set only, and \<open>NoDifference\<close> if it is in neither.
\<close>

theorem difference_classification:
  assumes en: "enumerates env"
    and fp: "filterPasses env goal existing patterns = Inr resultMap"
    and ms: "mismatchSets env h existing resultMap = (ver, spec, h')"
  shows "(\<forall>entry \<in> set (seedInstructions env goal). DiffResult (snd entry) = NoDifference) \<and>
         (\<exists>results.
            DetermineCRDsToInstallOrUpgrade env h goal existing patterns = (Inr results, h') \<and>
            (\<forall>i \<in> set results.
               DiffResult i =
                 (if Name (CRD i) \<in> fst ` set ver then VersionDifferent
                  else if Name (CRD i) \<in> fst ` set spec then SpecDifferent
                  else NoDifference)))"
proof -
  have seed: "\<forall>entry \<in> set (seedInstructions env goal). DiffResult (snd entry) = NoDifference"
  proof
    fix entry assume e: "entry \<in> set (seedInstructions env goal)"
    then have "(fst entry, snd entry) \<in> set (seedInstructions env goal)" by simp
    with seedInstructions_props(1)[of env goal]
    have "map_of (seedInstructions env goal) (fst entry) = Some (snd entry)"
      by (rule map_of_is_SomeI)
    then have "seeded env goal (fst entry) (snd entry)" by (rule seedInstructions_props(3))
    then show "DiffResult (snd entry) = NoDifference" by (simp add: seeded_def)
  qed
  from Determine_result[OF en fp ms] obtain results where r:
    "DetermineCRDsToInstallOrUpgrade env h goal existing patterns = (Inr results, h')"
    "\<forall>i \<in> set results. \<exists>i2. map_of resultMap (Name (CRD i)) = Some i2 \<and>
             i = i2\<lparr>DiffResult :=
                 (if Name (CRD i) \<in> fst ` set ver then VersionDifferent
                  else if Name (CRD i) \<in> fst ` set spec then SpecDifferent
                  else NoDifference)\<rparr>"
    by (elim exE conjE)
  have diff: "\<forall>i \<in> set results.
               DiffResult i =
                 (if Name (CRD i) \<in> fst ` set ver then VersionDifferent
                  else if Name (CRD i) \<in> fst ` set spec then SpecDifferent
                  else NoDifference)"
  proof
    fix i assume "i \<in> set results"
    from bspec[OF r(2) this] obtain i2 where
      eq: "i = i2\<lparr>DiffResult :=
                 (if Name (CRD i) \<in> fst ` set ver then VersionDifferent
                  else if Name (CRD i) \<in> fst ` set spec then SpecDifferent
                  else NoDifference)\<rparr>"
      by (elim exE conjE)
    show "DiffResult i =
                 (if Name (CRD i) \<in> fst ` set ver then VersionDifferent
                  else if Name (CRD i) \<in> fst ` set spec then SpecDifferent
                  else NoDifference)"
      by (subst eq) simp
  qed
  have "\<exists>results.
            DetermineCRDsToInstallOrUpgrade env h goal existing patterns = (Inr results, h') \<and>
            (\<forall>i \<in> set results.
               DiffResult i =
                 (if Name (CRD i) \<in> fst ` set ver then VersionDifferent
                  else if Name (CRD i) \<in> fst ` set spec then SpecDifferent
                  else NoDifference))"
    by (rule exI[of _ results]) (intro conjI r(1) diff)
  with seed show ?thesis by (rule conjI)
qed

theorem difference_classification_witness:
  "enumerates exampleEnv \<and>
   filterPasses exampleEnv exampleGoals exampleExistings ''foo-*'' = Inr exampleFiltered \<and>
   map fst (fst (mismatchSets exampleEnv exampleHeap exampleExistings exampleFiltered)) =
     [''bars.example.com'', ''foos.example.com''] \<and>
   map fst (fst (snd (mismatchSets exampleEnv exampleHeap exampleExistings exampleFiltered))) =
     [''bazs.example.com'', ''bars.example.com''] \<and>
   fst (DetermineCRDsToInstallOrUpgrade exampleEnv exampleHeap exampleGoals exampleExistings
         ''foo-*'') = Inr examplePlan \<and>
   map (\<lambda>i. (Name (CRD i), DiffResult i)) examplePlan =
     [(''bazs.example.com'', SpecDifferent), (''bars.example.com'', VersionDifferent),
      (''foos.example.com'', VersionDifferent), (''foo-bar'', NoDifference)]"
proof -
  have ms: "mismatchSets exampleEnv exampleHeap exampleExistings exampleFiltered =
     (fst (mismatchSets exampleEnv exampleHeap exampleExistings exampleFiltered),
      fst (snd (mismatchSets exampleEnv exampleHeap exampleExistings exampleFiltered)),
      snd (snd (mismatchSets exampleEnv exampleHeap exampleExistings exampleFiltered)))"
    by simp
  have plan: "map (\<lambda>i. (Name (CRD i), DiffResult i)) examplePlan =
     [(''bazs.example.com'', SpecDifferent), (''bars.example.com'', VersionDifferent),
      (''foos.example.com'', VersionDifferent), (''foo-bar'', NoDifference)]"
    by (simp add: examplePlan_def fooBar_def exampleGoal_def barGoal_def barExisting_def
        bazGoal_def bazExisting_def)
  show ?thesis
    using difference_classification[OF enumerates_exampleEnv example_filterPasses ms]
      enumerates_exampleEnv example_filterPasses example_mismatchSets example_plan plan
    by simp
qed

section \<open>C6: one instruction per goal name\<close>

text \<open>
  C6, as the specification states it: the size of the decision set equals the size of
  the goal list. It does not when two goal CRDs share a name: the instructions are kept
  in a map keyed by name, so a goal list of two CRDs of one name yields one instruction.
\<close>

theorem one_instruction_for_two_goals_counterexample:
  "fst (DetermineCRDsToInstallOrUpgrade exampleEnv exampleHeap [exampleGoal, exampleGoal] [] '''') =
     Inr [\<lparr>CRD = exampleGoal, FilterResult = Excluded,
           FilterReason = NotMatchedNotExisting ''foos.example.com'',
           DiffResult = NoDifference\<rparr>] \<and>
   length [exampleGoal, exampleGoal] = 2"
  by code_simp

text \<open>
  C6, amended: every successful invocation of \<open>DetermineCRDsToInstallOrUpgrade\<close>
  returns exactly one instruction per goal CRD name; the size of the decision set is the
  number of distinct goal names, and equals the size of the goal list when no two goal
  CRDs share a name.
\<close>

theorem one_instruction_per_goal_name:
  assumes en: "enumerates env"
    and ok: "fst (DetermineCRDsToInstallOrUpgrade env h goal existing patterns) = Inr results"
  shows "distinct (map (\<lambda>i. Name (CRD i)) results) \<and>
         set (map (\<lambda>i. Name (CRD i)) results) = Name ` set goal \<and>
         length results = card (Name ` set goal) \<and>
         (distinct (map Name goal) \<longrightarrow> length results = length goal)"
proof -
  obtain m2 ver spec h' where
    fp: "filterPasses env goal existing patterns = Inr m2"
    and "mismatchSets env h existing m2 = (ver, spec, h')"
    and names: "mset (map (\<lambda>i. Name (CRD i)) results) = mset (map fst m2)"
    and "\<forall>i \<in> set results. \<exists>i2. map_of m2 (Name (CRD i)) = Some i2 \<and>
             i = i2\<lparr>DiffResult :=
                 (if Name (CRD i) \<in> fst ` set ver then VersionDifferent
                  else if Name (CRD i) \<in> fst ` set spec then SpecDifferent
                  else NoDifference)\<rparr>"
    by (rule Determine_success[OF en ok])
  note D = filterPasses_distinct[OF fp]
  have 1: "distinct (map (\<lambda>i. Name (CRD i)) results)"
    using mset_eq_imp_distinct_iff[OF names] D(1) by simp
  have "set (map (\<lambda>i. Name (CRD i)) results) = set (map fst m2)"
    using names by (rule mset_eq_setD)
  then have 2: "set (map (\<lambda>i. Name (CRD i)) results) = Name ` set goal"
    using D(2) by simp
  have "length (map (\<lambda>i. Name (CRD i)) results) = card (set (map (\<lambda>i. Name (CRD i)) results))"
    using 1 by (simp only: distinct_card)
  then have 3: "length results = card (Name ` set goal)"
    unfolding 2 by simp
  have 4: "distinct (map Name goal) \<longrightarrow> length results = length goal"
  proof
    assume "distinct (map Name goal)"
    then have "card (set (map Name goal)) = length (map Name goal)" by (rule distinct_card)
    then show "length results = length goal" using 3 by simp
  qed
  show ?thesis by (intro conjI 1 2 3 4)
qed

theorem one_instruction_per_goal_name_witness:
  "enumerates exampleEnv \<and>
   fst (DetermineCRDsToInstallOrUpgrade exampleEnv exampleHeap exampleGoals exampleExistings
         ''foo-*'') = Inr examplePlan \<and>
   distinct (map Name exampleGoals) \<and>
   distinct (map (\<lambda>i. Name (CRD i)) examplePlan) \<and>
   set (map (\<lambda>i. Name (CRD i)) examplePlan) = Name ` set exampleGoals \<and>
   length examplePlan = length exampleGoals"
proof -
  have d: "distinct (map Name exampleGoals)"
    by (simp add: exampleGoals_def fooBar_def exampleGoal_def barGoal_def barExisting_def
        bazGoal_def bazExisting_def)
  show ?thesis
    using one_instruction_per_goal_name[OF enumerates_exampleEnv example_plan]
      enumerates_exampleEnv example_plan d
    by simp
qed

section \<open>C7: pattern validation\<close>

text \<open>
  C7: \<open>DetermineCRDsToInstallOrUpgrade\<close> fails with the pattern validation error,
  which names the pattern, if the pattern specification is non-empty and one of its
  patterns matches none of the candidate goal CRDs; with the empty pattern specification
  it never fails. The matcher is modelled from the specification; splitting the
  specification and matching one pattern are parameters.
\<close>

theorem pattern_validation:
  "(patterns \<noteq> '''' \<and> p \<in> set (splitPatterns env patterns) \<and>
    (\<forall>c \<in> set (candidates env goal). \<not> patternMatches env p (makeMatchString env c)) \<longrightarrow>
      (\<exists>ps. p \<in> set ps \<and>
         DetermineCRDsToInstallOrUpgrade env h goal existing patterns =
           (Inl (PatternValidationError ps), h))) \<and>
   (\<exists>results h'. DetermineCRDsToInstallOrUpgrade env h goal existing '''' = (Inr results, h'))"
proof (rule conjI)
  show "patterns \<noteq> '''' \<and> p \<in> set (splitPatterns env patterns) \<and>
    (\<forall>c \<in> set (candidates env goal). \<not> patternMatches env p (makeMatchString env c)) \<longrightarrow>
      (\<exists>ps. p \<in> set ps \<and>
         DetermineCRDsToInstallOrUpgrade env h goal existing patterns =
           (Inl (PatternValidationError ps), h))"
  proof
    assume a: "patterns \<noteq> '''' \<and> p \<in> set (splitPatterns env patterns) \<and>
      (\<forall>c \<in> set (candidates env goal). \<not> patternMatches env p (makeMatchString env c))"
    let ?m1 = "filterCRDsByExisting env existing (seedInstructions env goal)"
    have no: "\<forall>(k, v) \<in> set ?m1. \<not> patternMatches env p (makeMatchString env (CRD v))"
    proof
      fix e assume "e \<in> set ?m1"
      then have "(fst e, snd e) \<in> set ?m1" by simp
      then have "CRD (snd e) \<in> set (candidates env goal)" by (rule candidates_entries)
      then have "\<not> patternMatches env p (makeMatchString env (CRD (snd e)))"
        using a by simp
      then show "case e of (k, v) \<Rightarrow> \<not> patternMatches env p (makeMatchString env (CRD v))"
        by (simp add: case_prod_beta)
    qed
    have ne: "patterns \<noteq> ''''" and pin: "p \<in> set (splitPatterns env patterns)"
      using a by simp_all
    from filterCRDsByPatterns_error[OF ne pin no]
    obtain ps where ps: "p \<in> set ps"
      "filterCRDsByPatterns env patterns ?m1 = Inl (PatternValidationError ps)"
      by (elim conjE exE)
    have "filterPasses env goal existing patterns = Inl (PatternValidationError ps)"
      using ps(2) by (simp add: filterPasses_def)
    then have "DetermineCRDsToInstallOrUpgrade env h goal existing patterns =
           (Inl (PatternValidationError ps), h)"
      by (rule Determine_filter_error)
    with ps(1) show "\<exists>ps. p \<in> set ps \<and>
         DetermineCRDsToInstallOrUpgrade env h goal existing patterns =
           (Inl (PatternValidationError ps), h)"
      by (intro exI[of _ ps] conjI)
  qed
next
  let ?m1 = "filterCRDsByExisting env existing (seedInstructions env goal)"
  have fp: "filterPasses env goal existing '''' = Inr ?m1"
    by (simp add: filterPasses_def filterCRDsByPatterns_def)
  obtain ver spec h' where ms: "mismatchSets env h existing ?m1 = (ver, spec, h')"
    by (rule prod_cases3)
  from Determine_total[OF fp ms] obtain m4 where
    "DetermineCRDsToInstallOrUpgrade env h goal existing '''' =
       (Inr (map snd (rangeOver env 4 m4)), h')"
    by (elim exE conjE)
  then show "\<exists>results h'. DetermineCRDsToInstallOrUpgrade env h goal existing '''' = (Inr results, h')"
    by (intro exI)
qed

theorem pattern_validation_witness:
  "''nomatch-*'' \<in> set (splitPatterns exampleEnv ''nomatch-*;foo-*'') \<and>
   list_all (\<lambda>c. \<not> patternMatches exampleEnv ''nomatch-*'' (makeMatchString exampleEnv c))
     (candidates exampleEnv exampleGoals) \<and>
   fst (DetermineCRDsToInstallOrUpgrade exampleEnv exampleHeap exampleGoals exampleExistings
         ''nomatch-*;foo-*'') = Inl (PatternValidationError [''nomatch-*'']) \<and>
   \<not> isl (fst (DetermineCRDsToInstallOrUpgrade exampleEnv exampleHeap exampleGoals exampleExistings ''''))"
proof -
  have 1: "''nomatch-*'' \<in> set (splitPatterns exampleEnv ''nomatch-*;foo-*'')"
    by code_simp
  have 2: "list_all (\<lambda>c. \<not> patternMatches exampleEnv ''nomatch-*'' (makeMatchString exampleEnv c))
     (candidates exampleEnv exampleGoals)"
    by code_simp
  have 3: "fst (DetermineCRDsToInstallOrUpgrade exampleEnv exampleHeap exampleGoals exampleExistings
         ''nomatch-*;foo-*'') = Inl (PatternValidationError [''nomatch-*''])"
    by code_simp
  from pattern_validation[of "''nomatch-*;foo-*''" "''nomatch-*''" exampleEnv exampleGoals
      exampleHeap exampleExistings]
  obtain results h' where
    "DetermineCRDsToInstallOrUpgrade exampleEnv exampleHeap exampleGoals exampleExistings '''' =
       (Inr results, h')"
    by (elim conjE exE)
  then have 4: "\<not> isl (fst (DetermineCRDsToInstallOrUpgrade exampleEnv exampleHeap exampleGoals
      exampleExistings ''''))"
    by simp
  show ?thesis by (intro conjI 1 2 3 4)
qed

section \<open>C8: fixCRDNamespace\<close>

text \<open>
  C8: \<open>fixCRDNamespace\<close> returns a CRD that dereferences to the given one with exactly
  two changes. The namespace of the conversion webhook's backing service is the target
  namespace, when the CRD has such a service. The annotation
  \<open>cert-manager.io/inject-ca-from\<close> is \<open><target namespace>/<name>\<close>, \<open><name>\<close> being what
  follows the separator, when its value has exactly one \<open>/\<close>; with any other number of
  separators, none included, it is left as it is. The CRD given is not changed.
\<close>

theorem fixCRDNamespace_rewrites:
  assumes val: "valid h crd"
    and run: "fixCRDNamespace h crd namespace = (result, h')"
  shows "view h' result =
           rewriteInjectCAFrom namespace (setServiceNamespace namespace (view h crd)) \<and>
         view h' crd = view h crd"
proof -
  obtain r1 h1 where copy: "DeepCopy h crd = (r1, h1)" by (cases "DeepCopy h crd")
  note C = DeepCopy_props[OF copy]
  let ?h2 = "assignServiceNamespace h1 r1 namespace"
  have res: "result = assignInjectCAFrom r1 namespace" and h': "h' = ?h2"
    using run copy by (simp_all add: fixCRDNamespace_def)
  have "view h' result = rewriteInjectCAFrom namespace (view ?h2 r1)"
    unfolding res h' by (rule assignInjectCAFrom_view)
  also have "view ?h2 r1 = setServiceNamespace namespace (view h1 r1)"
    by (rule assignServiceNamespace_view)
  also have "view h1 r1 = view h crd" by (rule C(4))
  finally have 1: "view h' result =
           rewriteInjectCAFrom namespace (setServiceNamespace namespace (view h crd))" .
  have "agree_below (nextAddr h) h1 ?h2" using C(3) by (rule assignServiceNamespace_frame)
  with C(2) have "agree_below (nextAddr h) h h'" unfolding h' by (rule agree_below_trans)
  then have 2: "view h' crd = view h crd"
    using valid_below[OF val] by (rule frame_view)
  from 1 2 show ?thesis by (rule conjI)
qed

theorem fixCRDNamespace_rewrites_witness:
  "valid exampleHeap exampleGoal \<and>
   serviceNamespace (view exampleHeap exampleGoal) = Some ''old-ns'' \<and>
   serviceNamespace (view (snd (fixCRDNamespace exampleHeap exampleGoal ''new-ns''))
     (fst (fixCRDNamespace exampleHeap exampleGoal ''new-ns''))) = Some ''new-ns'' \<and>
   Annotations (fst (fixCRDNamespace exampleHeap exampleGoal ''new-ns'')) =
     Some [(''cert-manager.io/inject-ca-from'', ''new-ns/some-cert'')] \<and>
   Annotations (fst (fixCRDNamespace exampleHeap
       (exampleGoal\<lparr>Annotations := Some [(''cert-manager.io/inject-ca-from'', ''no-slash-value'')]\<rparr>)
       ''new-ns'')) =
     Some [(''cert-manager.io/inject-ca-from'', ''no-slash-value'')] \<and>
   view (snd (fixCRDNamespace exampleHeap exampleGoal ''new-ns'')) exampleGoal =
     view exampleHeap exampleGoal"
proof -
  have run: "fixCRDNamespace exampleHeap exampleGoal ''new-ns'' =
      (fst (fixCRDNamespace exampleHeap exampleGoal ''new-ns''),
       snd (fixCRDNamespace exampleHeap exampleGoal ''new-ns''))"
    by simp
  note T = fixCRDNamespace_rewrites[OF example_valid(1) run]
  have 1: "serviceNamespace (view exampleHeap exampleGoal) = Some ''old-ns''"
    by code_simp
  have 2: "serviceNamespace (view (snd (fixCRDNamespace exampleHeap exampleGoal ''new-ns''))
     (fst (fixCRDNamespace exampleHeap exampleGoal ''new-ns''))) = Some ''new-ns''"
    by code_simp
  have 3: "Annotations (fst (fixCRDNamespace exampleHeap exampleGoal ''new-ns'')) =
     Some [(''cert-manager.io/inject-ca-from'', ''new-ns/some-cert'')]"
    by code_simp
  have 4: "Annotations (fst (fixCRDNamespace exampleHeap
       (exampleGoal\<lparr>Annotations := Some [(''cert-manager.io/inject-ca-from'', ''no-slash-value'')]\<rparr>)
       ''new-ns'')) =
     Some [(''cert-manager.io/inject-ca-from'', ''no-slash-value'')]"
    by code_simp
  show ?thesis
    by (intro conjI example_valid(1) 1 2 3 4 T[THEN conjunct2])
qed

section \<open>C9: the arguments of FindMatchingCRDs are left as they were\<close>

text \<open>
  C9: \<open>FindMatchingCRDs\<close> and \<open>FindNonMatchingCRDs\<close> never change the CRDs of their
  \<open>existing\<close> and \<open>goal\<close> arguments. Each pair is deep-copied before the comparators
  run, so comparators that write only through the pointers of the CRDs they are given
  (as \<open>SpecEqual\<close> does when it removes the CA bundle) write to the copies: no cell that
  was allocated before the call is changed, and every CRD of the two arguments
  dereferences after the call to what it did before.
\<close>

theorem FindMatchingCRDs_leaves_arguments:
  assumes conf: "\<forall>c \<in> set comparators. confined c"
    and val: "\<forall>x \<in> set existing \<union> set goal. valid h x"
  shows "agree_below (nextAddr h) h (snd (FindMatchingCRDs h existing goal comparators)) \<and>
         agree_below (nextAddr h) h (snd (FindNonMatchingCRDs h existing goal comparators)) \<and>
         (\<forall>x \<in> set existing \<union> set goal.
            view (snd (FindMatchingCRDs h existing goal comparators)) x = view h x \<and>
            view (snd (FindNonMatchingCRDs h existing goal comparators)) x = view h x)"
proof -
  have conf': "\<forall>c \<in> set (map invert comparators). confined c"
    using conf by (simp add: confined_invert)
  have m: "agree_below (nextAddr h) h (snd (FindMatchingCRDs h existing goal comparators))"
    unfolding FindMatchingCRDs_def using matchGoals_frame[OF conf order_refl] by blast
  have n: "agree_below (nextAddr h) h (snd (FindNonMatchingCRDs h existing goal comparators))"
    unfolding FindNonMatchingCRDs_def FindMatchingCRDs_def
    using matchGoals_frame[OF conf' order_refl] by blast
  have "\<And>x. x \<in> set existing \<union> set goal \<Longrightarrow> \<forall>p \<in> cells h x. p < nextAddr h"
    using val by (simp add: valid_def)
  then show ?thesis
    using m n frame_view by blast
qed

theorem FindMatchingCRDs_leaves_arguments_witness:
  "confined SpecEqual \<and> valid exampleHeap exampleExisting \<and> valid exampleHeap exampleGoal \<and>
   view (snd (FindMatchingCRDs exampleHeap [exampleExisting] [exampleGoal] [SpecEqual]))
     exampleExisting = view exampleHeap exampleExisting \<and>
   view (snd (FindNonMatchingCRDs exampleHeap [exampleExisting] [exampleGoal] [SpecEqual]))
     exampleGoal = view exampleHeap exampleGoal \<and>
   CABundle (clientConfigs
     (snd (FindMatchingCRDs exampleHeap [exampleExisting] [exampleGoal] [SpecEqual])) 6) =
     Some [48, 130, 1]"
proof -
  have conf: "\<forall>c \<in> set [SpecEqual]. confined c"
    using confined_SpecEqual by simp
  have val: "\<forall>x \<in> set [exampleExisting] \<union> set [exampleGoal]. valid exampleHeap x"
    using example_valid by simp
  have six: "(6::nat) < nextAddr exampleHeap" "CABundle (clientConfigs exampleHeap 6) = Some [48, 130, 1]"
    by (simp_all add: exampleHeap_def)
  show ?thesis
    using FindMatchingCRDs_leaves_arguments[OF conf val] confined_SpecEqual example_valid six
    by (simp add: agree_below_def)
qed

section \<open>C10: CloudError.UnmarshalJSON\<close>

text \<open>
  C10: for every body that \<open>json.Unmarshal\<close> decodes, \<open>UnmarshalJSON\<close> returns no error,
  leaves the wrapped error as it was, and takes code, message, target and details from
  the nested \<open>error\<close> object when the body has one, whatever stands at the top level, and
  from the top level otherwise. It returns an error exactly when \<open>json.Unmarshal\<close> does.
\<close>

theorem UnmarshalJSON_fields:
  "(\<forall>content. unmarshal data = Inr content \<longrightarrow>
      fst (UnmarshalJSON unmarshal e data) = None \<and>
      wrapped (snd (UnmarshalJSON unmarshal e data)) = wrapped e \<and>
      (case InnerError content of
         Some innerError \<Rightarrow>
           code (snd (UnmarshalJSON unmarshal e data)) = Code innerError \<and>
           message (snd (UnmarshalJSON unmarshal e data)) = Message innerError \<and>
           target (snd (UnmarshalJSON unmarshal e data)) = Target innerError \<and>
           details (snd (UnmarshalJSON unmarshal e data)) = Details innerError
       | None \<Rightarrow>
           code (snd (UnmarshalJSON unmarshal e data)) = Code content \<and>
           message (snd (UnmarshalJSON unmarshal e data)) = Message content \<and>
           target (snd (UnmarshalJSON unmarshal e data)) = Target content \<and>
           details (snd (UnmarshalJSON unmarshal e data)) = Details content)) \<and>
   (fst (UnmarshalJSON unmarshal e data) \<noteq> None \<longleftrightarrow> isl (unmarshal data)) \<and>
   (isl (unmarshal data) \<longrightarrow> snd (UnmarshalJSON unmarshal e data) = e)"
proof (cases "unmarshal data")
  case (Inl err)
  then show ?thesis by (simp add: UnmarshalJSON_def)
next
  case (Inr content)
  then show ?thesis
    by (cases "InnerError content") (simp_all add: UnmarshalJSON_def)
qed

theorem UnmarshalJSON_fields_witness:
  "UnmarshalJSON (\<lambda>data. Inr nestedContent :: string + string list UnmarshalContent)
     freshCloudError ''body'' =
     (None, \<lparr>wrapped = ''409 Conflict'', code = Some ''Conflict'', message = Some ''busy'',
              target = Some ''vm1'', details = [''nested'']\<rparr>) \<and>
   UnmarshalJSON (\<lambda>data. Inr flatContent :: string + string list UnmarshalContent)
     freshCloudError ''body'' =
     (None, \<lparr>wrapped = ''409 Conflict'', code = Some ''TopLevel'', message = Some ''ignored'',
              target = None, details = [''top'']\<rparr>) \<and>
   UnmarshalJSON (\<lambda>data. Inl ''unexpected end of JSON input'' :: string + string list UnmarshalContent)
     freshCloudError ''body'' =
     (Some (Wrap ''unexpected end of JSON input'' ''unmarshalling JSON for CloudError''),
      freshCloudError)"
  using UnmarshalJSON_fields[of "\<lambda>data. Inr nestedContent :: string + string list UnmarshalContent"
      "''body''" freshCloudError]
    UnmarshalJSON_fields[of "\<lambda>data. Inr flatContent :: string + string list UnmarshalContent"
      "''body''" freshCloudError]
    UnmarshalJSON_fields[of "\<lambda>data. Inl ''unexpected end of JSON input'' :: string + string list UnmarshalContent"
      "''body''" freshCloudError]
  by (simp add: UnmarshalJSON_def nestedContent_def flatContent_def freshCloudError_def)

end
